theory Spec2Isabelle
  imports Main
begin

section \<open>Values that the code throws\<close>

text \<open>
  A JavaScript \<^verbatim>\<open>throw\<close> can raise any value. \<open>Error n m\<close> stands for an object that
  carries a \<^verbatim>\<open>name\<close> and a \<^verbatim>\<open>message\<close> (every \<^verbatim>\<open>Error\<close> instance, every Dexie error);
  \<open>OtherValue\<close> stands for anything else. \<open>isError\<close> is the type guard of lines 171-173.
\<close>

datatype thrown = Error (name: string) (message: string) | OtherValue

fun isError :: "thrown \<Rightarrow> bool" where
  "isError (Error n m) = True"
| "isError OtherValue = False"

definition new_Error :: "string \<Rightarrow> thrown" where
  "new_Error msg = Error ''Error'' msg"

section \<open>The table and the backing engine\<close>

record StorageRecord =
  key :: string
  "value" :: string
  timestamp :: "nat option"

text \<open>
  The table \<^verbatim>\<open>storage\<close> has \<^verbatim>\<open>key\<close> as primary key. Its content is a list of records;
  \<open>put_record\<close> overwrites the record of the same key, as IndexedDB's put does.
\<close>

definition lookup :: "string \<Rightarrow> StorageRecord list \<Rightarrow> StorageRecord option" where
  "lookup k t = find (\<lambda>r. key r = k) t"

definition put_record :: "StorageRecord \<Rightarrow> StorageRecord list \<Rightarrow> StorageRecord list" where
  "put_record r t =
     (if lookup (key r) t = None then t @ [r]
      else map (\<lambda>x. if key x = key r then r else x) t)"

definition delete_key :: "string \<Rightarrow> StorageRecord list \<Rightarrow> StorageRecord list" where
  "delete_key k t = filter (\<lambda>r. key r \<noteq> k) t"

text \<open>
  The record that \<^verbatim>\<open>orderBy('timestamp').last()\<close> yields: records without a timestamp are
  not in the index; of the others one with the greatest timestamp is taken. The code reads
  only the timestamp of the result.
\<close>

definition later :: "StorageRecord \<Rightarrow> StorageRecord option \<Rightarrow> StorageRecord option" where
  "later r best =
     (case timestamp r of
        None \<Rightarrow> best
      | Some t \<Rightarrow>
          (case best of
             None \<Rightarrow> Some r
           | Some b \<Rightarrow>
               (case timestamp b of
                  None \<Rightarrow> Some r
                | Some tb \<Rightarrow> if tb \<le> t then Some r else Some b)))"

definition last_by_timestamp :: "StorageRecord list \<Rightarrow> StorageRecord option" where
  "last_by_timestamp t = fold later t None"

text \<open>
  Everything outside the provider is one state: the outcome of \<^verbatim>\<open>db.open()\<close>, the content of
  the table, the system clock, and a script \<open>faults\<close> that fixes for each coming request to
  the engine whether it fails and with which error (an exhausted script means success).
  \<open>trace\<close> records the requests and timers in the order in which the code issues them.
\<close>

datatype event =
    Open
  | Get string
  | Put string
  | Delete string
  | Clear
  | BulkPut "string list"
  | BulkDelete "string list"
  | Count
  | OrderByLast
  | ToArray
  | Transaction
  | Commit
  | SetTimeout nat

record provider =
  dbOpened :: "thrown option"
  storage :: "StorageRecord list"
  faults :: "thrown option list"
  clock :: nat
  trace :: "event list"

type_synonym 'a io = "provider \<Rightarrow> (thrown + 'a) \<times> provider"

definition io_return :: "'a \<Rightarrow> 'a io" where
  "io_return x s = (Inr x, s)"

definition io_throw :: "thrown \<Rightarrow> 'a io" where
  "io_throw e s = (Inl e, s)"

definition io_bind :: "'a io \<Rightarrow> ('a \<Rightarrow> 'b io) \<Rightarrow> 'b io" where
  "io_bind m f s = (case m s of (Inl e, s1) \<Rightarrow> (Inl e, s1) | (Inr x, s1) \<Rightarrow> f x s1)"

definition io_catch :: "'a io \<Rightarrow> (thrown \<Rightarrow> 'a io) \<Rightarrow> 'a io" where
  "io_catch m h s = (case m s of (Inl e, s1) \<Rightarrow> h e s1 | (Inr x, s1) \<Rightarrow> (Inr x, s1))"

definition io_lift :: "thrown + 'a \<Rightarrow> 'a io" where
  "io_lift r s = (r, s)"

text \<open>
  One request to the engine: it takes the next entry of the script; on a fault the table is
  left as it was and the fault is raised, otherwise \<open>f\<close> gives the answer and the new table.
\<close>

definition request :: "event \<Rightarrow> (StorageRecord list \<Rightarrow> 'a \<times> StorageRecord list) \<Rightarrow> 'a io" where
  "request ev f s =
     (let s1 = s\<lparr>faults := tl (faults s), trace := trace s @ [ev]\<rparr> in
      case faults s of
        Some e # rest \<Rightarrow> (Inl e, s1)
      | _ \<Rightarrow> (case f (storage s) of (r, t) \<Rightarrow> (Inr r, s1\<lparr>storage := t\<rparr>)))"

definition storage_get :: "string \<Rightarrow> StorageRecord option io" where
  "storage_get k = request (Get k) (\<lambda>t. (lookup k t, t))"

definition storage_put :: "StorageRecord \<Rightarrow> unit io" where
  "storage_put r = request (Put (key r)) (\<lambda>t. ((), put_record r t))"

definition storage_delete :: "string \<Rightarrow> unit io" where
  "storage_delete k = request (Delete k) (\<lambda>t. ((), delete_key k t))"

definition storage_clear :: "unit io" where
  "storage_clear = request Clear (\<lambda>t. ((), []))"

definition storage_bulkPut :: "StorageRecord list \<Rightarrow> unit io" where
  "storage_bulkPut rs = request (BulkPut (map key rs)) (\<lambda>t. ((), fold put_record rs t))"

definition storage_bulkDelete :: "string list \<Rightarrow> unit io" where
  "storage_bulkDelete ks = request (BulkDelete ks) (\<lambda>t. ((), fold delete_key ks t))"

definition storage_count :: "nat io" where
  "storage_count = request Count (\<lambda>t. (length t, t))"

definition storage_orderBy_timestamp_last :: "StorageRecord option io" where
  "storage_orderBy_timestamp_last = request OrderByLast (\<lambda>t. (last_by_timestamp t, t))"

definition storage_toArray :: "StorageRecord list io" where
  "storage_toArray = request ToArray (\<lambda>t. (t, t))"

text \<open>
  \<^verbatim>\<open>db.transaction('rw', storage, body)\<close>: the body runs on the table. When the body fails
  the transaction is aborted: the table is rolled back and the body's error is raised. When
  the body completes, the outcome of the commit is one more request. A fault there that is
  named \<^verbatim>\<open>PrematureCommitError\<close> is Dexie's report that the engine had committed before the
  promise of the body was resolved: the error is raised, and what the body has written
  stays in the table. Any other fault at the commit aborts the transaction, and the table
  is rolled back.
\<close>

definition transaction :: "'a io \<Rightarrow> 'a io" where
  "transaction body s =
     (case body (s\<lparr>trace := trace s @ [Transaction]\<rparr>) of
        (Inl e, s1) \<Rightarrow> (Inl e, s1\<lparr>storage := storage s\<rparr>)
      | (Inr r, s1) \<Rightarrow>
          (case request Commit (\<lambda>t. ((), t)) s1 of
             (Inl e, s2) \<Rightarrow>
               if isError e \<and> name e = ''PrematureCommitError'' then (Inl e, s2)
               else (Inl e, s2\<lparr>storage := storage s\<rparr>)
           | (Inr u, s2) \<Rightarrow> (Inr r, s2)))"

text \<open>
  \<^verbatim>\<open>Date.now()\<close> reads the clock. The clock is advanced by what the code itself waits
  (\<^verbatim>\<open>setTimeout\<close>); the time that requests take is not counted.
\<close>

definition Date_now :: "nat io" where
  "Date_now s = (Inr (clock s), s)"

definition setTimeout :: "nat \<Rightarrow> unit io" where
  "setTimeout delay s = (Inr (), s\<lparr>clock := clock s + delay, trace := trace s @ [SetTimeout delay]\<rparr>)"

section \<open>DexieStorageProvider\<close>

text \<open>
  Lines 45-52: the constructor opens the database once and keeps the outcome in
  \<^verbatim>\<open>dbOpened\<close> (\<open>None\<close>: the promise is fulfilled; \<open>Some e\<close>: it is rejected with \<open>e\<close>).
  \<open>disk\<close> is what the table holds, \<open>script\<close> the faults to come, the first of them for
  \<^verbatim>\<open>db.open()\<close> itself.
\<close>

definition constructor :: "StorageRecord list \<Rightarrow> thrown option list \<Rightarrow> nat \<Rightarrow> provider" where
  "constructor disk script now =
     \<lparr>dbOpened = (case script of Some e # rest \<Rightarrow> Some e | _ \<Rightarrow> None),
      storage = disk, faults = tl script, clock = now, trace = [Open]\<rparr>"

definition initialize :: "unit io" where
  "initialize s = (case dbOpened s of Some e \<Rightarrow> (Inl e, s) | None \<Rightarrow> (Inr (), s))"

text \<open>Lines 72-82. \<^verbatim>\<open>record?.value ?? null\<close> is \<open>None\<close> exactly when there is no record.\<close>

definition getItem :: "string \<Rightarrow> string option io" where
  "getItem k =
     io_bind initialize (\<lambda>_.
       io_catch
         (io_bind (storage_get k) (\<lambda>record. io_return (map_option value record)))
         (\<lambda>error. io_throw (new_Error (''Failed to get item: '' @ k))))"

text \<open>Lines 87-100.\<close>

definition setItem :: "string \<Rightarrow> string \<Rightarrow> unit io" where
  "setItem k v =
     io_bind initialize (\<lambda>_.
       io_catch
         (io_bind Date_now (\<lambda>now.
            storage_put \<lparr>key = k, value = v, timestamp = Some now\<rparr>))
         (\<lambda>error. io_throw (new_Error (''Failed to set item: '' @ k))))"

text \<open>Lines 105-114.\<close>

definition removeItem :: "string \<Rightarrow> unit io" where
  "removeItem k =
     io_bind initialize (\<lambda>_.
       io_catch
         (storage_delete k)
         (\<lambda>error. io_throw (new_Error (''Failed to remove item: '' @ k))))"

text \<open>Lines 119-128.\<close>

definition clearAll :: "unit io" where
  "clearAll =
     io_bind initialize (\<lambda>_.
       io_catch
         storage_clear
         (\<lambda>error. io_throw (new_Error ''Failed to clear storage'')))"

subsection \<open>atomicUpdate\<close>

text \<open>
  The caller's value type \<open>'v\<close> and its JSON codec are parameters: \<open>JSON_parse\<close> gives
  \<open>None\<close> for the text \<^verbatim>\<open>null\<close> and may throw, \<open>JSON_stringify\<close> may throw. The caller's
  \<^verbatim>\<open>updateFn\<close> may throw as well.
\<close>

record 'v codec =
  JSON_parse :: "string \<Rightarrow> thrown + 'v option"
  JSON_stringify :: "'v \<Rightarrow> thrown + string"

text \<open>
  Lines 228-230 and 260-262: \<^verbatim>\<open>currentRecord?.value ? JSON.parse(currentRecord.value) : null\<close>.
  A missing record and an empty value are both falsy and give \<^verbatim>\<open>null\<close>.
\<close>

definition currentValue_of :: "'v codec \<Rightarrow> StorageRecord option \<Rightarrow> thrown + 'v option" where
  "currentValue_of c currentRecord =
     (case currentRecord of
        None \<Rightarrow> Inr None
      | Some r \<Rightarrow> if value r = [] then Inr None else JSON_parse c (value r))"

text \<open>
  Lines 250-289. The inner handler of lines 273-277 logs and rethrows, so the body's error
  is the transaction's error. The outer handler replaces every error by a fresh
  \<^verbatim>\<open>new Error(...)\<close>, whose name is \<^verbatim>\<open>Error\<close>.
\<close>

definition performAtomicUpdate :: "'v codec \<Rightarrow> string \<Rightarrow> ('v option \<Rightarrow> thrown + 'v) \<Rightarrow> unit io" where
  "performAtomicUpdate c k updateFn =
     io_catch
       (transaction
          (io_bind (storage_get k) (\<lambda>currentRecord.
           io_bind (io_lift (currentValue_of c currentRecord)) (\<lambda>currentValue.
           io_bind (io_lift (updateFn currentValue)) (\<lambda>newValue.
           io_bind (io_lift (JSON_stringify c newValue)) (\<lambda>text.
           io_bind Date_now (\<lambda>now.
             storage_put \<lparr>key = k, value = text, timestamp = Some now\<rparr>)))))))
       (\<lambda>error.
          if isError error \<and> name error = ''PrematureCommitError''
          then io_throw (new_Error (''Database transaction error for key '' @ k @ '': '' @
                                     message error @ ''. Please try again.''))
          else io_throw (new_Error (''Failed to perform atomic update: '' @ k)))"

text \<open>Lines 221-245: the same read, update and write without a transaction.\<close>

definition performSimpleUpdate :: "'v codec \<Rightarrow> string \<Rightarrow> ('v option \<Rightarrow> thrown + 'v) \<Rightarrow> unit io" where
  "performSimpleUpdate c k updateFn =
     io_catch
       (io_bind (storage_get k) (\<lambda>currentRecord.
        io_bind (io_lift (currentValue_of c currentRecord)) (\<lambda>currentValue.
        io_bind (io_lift (updateFn currentValue)) (\<lambda>newValue.
        io_bind (io_lift (JSON_stringify c newValue)) (\<lambda>text.
        io_bind Date_now (\<lambda>now.
          storage_put \<lparr>key = k, value = text, timestamp = Some now\<rparr>))))))
       (\<lambda>error. io_throw (new_Error (''Failed to perform simple update: '' @ k)))"

text \<open>Decimal text of a number, for the template string of line 215.\<close>

fun decimal :: "nat \<Rightarrow> string" where
  "decimal n =
     (if n < 10 then [''0123456789'' ! n]
      else decimal (n div 10) @ [''0123456789'' ! (n mod 10)])"

text \<open>
  Lines 178-216: the loop \<^verbatim>\<open>for (attempt = 1; attempt <= maxRetries; attempt++)\<close>, with
  \<^verbatim>\<open>lastError\<close> carried along. The three ways out of the handler are, in the order of the
  source: wait and \<^verbatim>\<open>continue\<close> (lines 194-198); the fallback on the last attempt (lines
  201-211); otherwise the end of the handler, which goes on to the next attempt.
\<close>

function performAtomicUpdateWithRetry_loop ::
  "'v codec \<Rightarrow> string \<Rightarrow> ('v option \<Rightarrow> thrown + 'v) \<Rightarrow> nat \<Rightarrow> nat \<Rightarrow> thrown option \<Rightarrow> unit io" where
  "performAtomicUpdateWithRetry_loop c k updateFn maxRetries attempt lastError s =
     (if attempt \<le> maxRetries then
        (case performAtomicUpdate c k updateFn s of
           (Inr u, s1) \<Rightarrow> (Inr (), s1)
         | (Inl error, s1) \<Rightarrow>
             if isError error \<and> name error = ''PrematureCommitError'' \<and> attempt < maxRetries then
               performAtomicUpdateWithRetry_loop c k updateFn maxRetries (attempt + 1) (Some error)
                 (snd (setTimeout (min (100 * 2 ^ (attempt - 1)) 1000) s1))
             else if attempt = maxRetries then
               (case performSimpleUpdate c k updateFn s1 of
                  (Inr u, s2) \<Rightarrow> (Inr (), s2)
                | (Inl fallbackError, s2) \<Rightarrow> (Inl error, s2))
             else
               performAtomicUpdateWithRetry_loop c k updateFn maxRetries (attempt + 1) (Some error) s1)
      else
        (Inl (case lastError of
                Some e \<Rightarrow> e
              | None \<Rightarrow> new_Error (''Failed to perform atomic update after '' @
                                     decimal maxRetries @ '' attempts'')), s))"
  by pat_completeness auto
termination
  by (relation "measure (\<lambda>(c, k, updateFn, maxRetries, attempt, lastError, s). Suc maxRetries - attempt)")
    auto

definition performAtomicUpdateWithRetry ::
  "'v codec \<Rightarrow> string \<Rightarrow> ('v option \<Rightarrow> thrown + 'v) \<Rightarrow> nat \<Rightarrow> unit io" where
  "performAtomicUpdateWithRetry c k updateFn maxRetries =
     performAtomicUpdateWithRetry_loop c k updateFn maxRetries 1 None"

text \<open>
  Lines 134-154, for a call that runs while no other \<^verbatim>\<open>atomicUpdate\<close> is in flight: the lock
  table then has no entry at line 142, and the entry of line 147 is deleted at line 152.
  \<^verbatim>\<open>maxRetries\<close> is left at its default 3. The lock table with calls in flight is the
  subject of the section on the key locks. \<^verbatim>\<open>updateData\<close> (lines 160-166) calls
  \<^verbatim>\<open>atomicUpdate\<close> and nothing else.
\<close>

definition atomicUpdate :: "'v codec \<Rightarrow> string \<Rightarrow> ('v option \<Rightarrow> thrown + 'v) \<Rightarrow> unit io" where
  "atomicUpdate c k updateFn =
     io_bind initialize (\<lambda>_. performAtomicUpdateWithRetry c k updateFn 3)"

definition updateData :: "'v codec \<Rightarrow> string \<Rightarrow> ('v option \<Rightarrow> thrown + 'v) \<Rightarrow> unit io" where
  "updateData c k modifier = atomicUpdate c k modifier"

subsection \<open>batchUpdate\<close>

datatype operation = Op_set | Op_remove

record BatchOperation =
  op_key :: string
  operation :: operation
  op_value :: "string option"

text \<open>
  Lines 303-316: the loop that sorts the entries into \<^verbatim>\<open>updates\<close> and \<^verbatim>\<open>deletions\<close>.
  \<open>op_value = None\<close> is an entry whose \<^verbatim>\<open>value\<close> is \<^verbatim>\<open>undefined\<close>.
\<close>

fun batch_loop ::
  "nat \<Rightarrow> BatchOperation list \<Rightarrow> StorageRecord list \<Rightarrow> string list \<Rightarrow> StorageRecord list \<times> string list" where
  "batch_loop now [] updates deletions = (updates, deletions)"
| "batch_loop now (x # xs) updates deletions =
     (if operation x = Op_set \<and> op_value x \<noteq> None then
        batch_loop now xs
          (updates @ [\<lparr>key = op_key x, value = the (op_value x), timestamp = Some now\<rparr>]) deletions
      else if operation x = Op_remove then
        batch_loop now xs updates (deletions @ [op_key x])
      else batch_loop now xs updates deletions)"

text \<open>
  Lines 294-332: one transaction, first \<^verbatim>\<open>bulkPut(updates)\<close>, then \<^verbatim>\<open>bulkDelete(deletions)\<close>.
  The loop runs without a pause, so every \<^verbatim>\<open>Date.now()\<close> in it reads the same clock.
\<close>

definition batchUpdate :: "BatchOperation list \<Rightarrow> unit io" where
  "batchUpdate operations =
     io_bind initialize (\<lambda>_.
       io_catch
         (transaction
            (io_bind Date_now (\<lambda>now.
               case batch_loop now operations [] [] of
                 (updates, deletions) \<Rightarrow>
                   io_bind (if updates \<noteq> [] then storage_bulkPut updates else io_return ()) (\<lambda>_.
                     if deletions \<noteq> [] then storage_bulkDelete deletions else io_return ()))))
         (\<lambda>error. io_throw (new_Error ''Failed to perform batch update'')))"

subsection \<open>getStorageInfo, exportAll, importAll\<close>

record StorageInfo =
  itemCount :: nat
  estimatedSize :: nat
  lastUpdated :: "nat option"

text \<open>Lines 337-370. \<^verbatim>\<open>await this.initialize()\<close> of line 342 stands before the \<^verbatim>\<open>try\<close>.\<close>

definition getStorageInfo :: "StorageInfo io" where
  "getStorageInfo =
     io_bind initialize (\<lambda>_.
       io_catch
         (io_bind storage_count (\<lambda>count.
          io_bind storage_orderBy_timestamp_last (\<lambda>lastRecord.
          io_bind storage_toArray (\<lambda>allRecords.
            io_return
              \<lparr>itemCount = count,
               estimatedSize = foldl (\<lambda>total record. total + length (value record)) 0 allRecords,
               lastUpdated = (case lastRecord of None \<Rightarrow> None | Some r \<Rightarrow> timestamp r)\<rparr>))))
         (\<lambda>error. io_return \<lparr>itemCount = 0, estimatedSize = 0, lastUpdated = None\<rparr>))"

text \<open>
  A \<^verbatim>\<open>Record<string, string>\<close> is the list of its entries; \<open>assign\<close> is \<^verbatim>\<open>result[k] = v\<close>.
  Lines 375-391.
\<close>

definition assign :: "string \<Rightarrow> string \<Rightarrow> (string \<times> string) list \<Rightarrow> (string \<times> string) list" where
  "assign k v obj =
     (if k \<in> fst ` set obj then map (\<lambda>(k', v'). if k' = k then (k, v) else (k', v')) obj
      else obj @ [(k, v)])"

definition exportAll :: "(string \<times> string) list io" where
  "exportAll =
     io_bind initialize (\<lambda>_.
       io_catch
         (io_bind storage_toArray (\<lambda>allRecords.
            io_return (fold (\<lambda>record. assign (key record) (value record)) allRecords [])))
         (\<lambda>error. io_throw (new_Error ''Failed to export data'')))"

text \<open>Lines 396-411: \<open>data\<close> is \<^verbatim>\<open>Object.entries(data)\<close>.\<close>

definition importAll :: "(string \<times> string) list \<Rightarrow> unit io" where
  "importAll data =
     io_bind initialize (\<lambda>_.
       io_catch
         (io_bind Date_now (\<lambda>now.
            storage_bulkPut (map (\<lambda>(k, v). \<lparr>key = k, value = v, timestamp = Some now\<rparr>) data)))
         (\<lambda>error. io_throw (new_Error ''Failed to import data'')))"

section \<open>The key locks with several calls in flight\<close>

text \<open>
  Lines 134-154 once more, now as the JavaScript event loop runs them when several calls of
  \<^verbatim>\<open>atomicUpdate\<close> are pending. A call is suspended at one of its three \<^verbatim>\<open>await\<close>s:
  line 138 (\<^verbatim>\<open>await this.initialize()\<close>), line 143 (\<^verbatim>\<open>await this.keyLocks.get(lockKey)\<close>, the
  lock promise of another call) or line 150 (\<^verbatim>\<open>await lockPromise\<close>, its own promise; its
  \<^verbatim>\<open>_performAtomicUpdateWithRetry\<close> is then in flight). Calls are numbered in the order in
  which they are made, and the lock promise of a call carries the call's number. The
  database is taken to be open. What \<^verbatim>\<open>_performAtomicUpdateWithRetry\<close> does while in flight
  is requests to the engine, whose answers arrive as tasks of their own: its promise is
  settled by the action \<open>Settle\<close>, which the event loop takes only when no microtask is
  left.
\<close>

datatype settlement = Fulfilled | Rejected thrown

datatype position =
    Line138
  | Line143 nat
  | Line150
  | Returned
  | Threw thrown

text \<open>
  \<open>calls\<close>: key and position of every call. \<open>keyLocks\<close>: the map of line 43. \<open>settled\<close>:
  the lock promises that are settled. \<open>reactions\<close>: who awaits which pending promise
  \<open>(promise, call)\<close>, in the order of the \<^verbatim>\<open>await\<close>s. \<open>microtasks\<close>: the calls whose
  continuation is ready to run, first in, first out.
\<close>

record runtime =
  calls :: "(string \<times> position) list"
  keyLocks :: "string \<rightharpoonup> nat"
  settled :: "nat \<rightharpoonup> settlement"
  reactions :: "(nat \<times> nat) list"
  microtasks :: "nat list"

definition lockKey :: "runtime \<Rightarrow> nat \<Rightarrow> string" where
  "lockKey r i = ''atomic_'' @ fst (calls r ! i)"

definition goto :: "nat \<Rightarrow> position \<Rightarrow> runtime \<Rightarrow> runtime" where
  "goto i p r = r\<lparr>calls := (calls r)[i := (fst (calls r ! i), p)]\<rparr>"

text \<open>
  Call \<open>i\<close> awaits promise \<open>p\<close>: on a pending promise it is added to the promise's
  reactions, on a settled one its continuation is queued at once.
\<close>

definition await :: "nat \<Rightarrow> nat \<Rightarrow> runtime \<Rightarrow> runtime" where
  "await i p r =
     (case settled r p of
        None \<Rightarrow> r\<lparr>reactions := reactions r @ [(p, i)]\<rparr>
      | Some outcome \<Rightarrow> r\<lparr>microtasks := microtasks r @ [i]\<rparr>)"

text \<open>
  Lines 146-150: start \<^verbatim>\<open>_performAtomicUpdateWithRetry\<close>, store its promise under the lock
  key, await it.
\<close>

definition lines_146_150 :: "nat \<Rightarrow> runtime \<Rightarrow> runtime" where
  "lines_146_150 i r =
     await i i (goto i Line150 (r\<lparr>keyLocks := (keyLocks r)(lockKey r i \<mapsto> i)\<rparr>))"

text \<open>
  The continuation of call \<open>i\<close>. After line 138 the lock table is looked up once (line 142).
  After line 143 the code goes straight on to line 146 and does not look at the table again;
  a rejected lock promise is thrown by the \<^verbatim>\<open>await\<close>, outside the \<^verbatim>\<open>try\<close>. After line 150 the
  \<^verbatim>\<open>finally\<close> deletes the entry of the lock key, whoever has set it.
\<close>

definition resume :: "nat \<Rightarrow> runtime \<Rightarrow> runtime" where
  "resume i r =
     (case snd (calls r ! i) of
        Line138 \<Rightarrow>
          (case keyLocks r (lockKey r i) of
             Some p \<Rightarrow> await i p (goto i (Line143 p) r)
           | None \<Rightarrow> lines_146_150 i r)
      | Line143 p \<Rightarrow>
          (case settled r p of
             Some Fulfilled \<Rightarrow> lines_146_150 i r
           | Some (Rejected e) \<Rightarrow> goto i (Threw e) r
           | None \<Rightarrow> r)
      | Line150 \<Rightarrow>
          (case settled r i of
             Some Fulfilled \<Rightarrow> goto i Returned (r\<lparr>keyLocks := (keyLocks r)(lockKey r i := None)\<rparr>)
           | Some (Rejected e) \<Rightarrow> goto i (Threw e) (r\<lparr>keyLocks := (keyLocks r)(lockKey r i := None)\<rparr>)
           | None \<Rightarrow> r)
      | Returned \<Rightarrow> r
      | Threw e \<Rightarrow> r)"

text \<open>The update of call \<open>i\<close> is executing: started at line 146 and not yet settled.\<close>

definition in_flight :: "runtime \<Rightarrow> nat \<Rightarrow> bool" where
  "in_flight r i \<longleftrightarrow> i < length (calls r) \<and> snd (calls r ! i) = Line150 \<and> settled r i = None"

text \<open>
  What can happen: a caller calls \<^verbatim>\<open>atomicUpdate(k, ...)\<close>, which runs up to line 138; the
  event loop runs the next microtask; the update of call \<open>i\<close> ends. An action that cannot
  happen in the state gives \<open>None\<close>.
\<close>

datatype action = Call string | Microtask | Settle nat settlement

fun step :: "action \<Rightarrow> runtime \<Rightarrow> runtime option" where
  "step (Call k) r =
     Some (r\<lparr>calls := calls r @ [(k, Line138)], microtasks := microtasks r @ [length (calls r)]\<rparr>)"
| "step Microtask r =
     (case microtasks r of
        [] \<Rightarrow> None
      | i # rest \<Rightarrow> Some (resume i (r\<lparr>microtasks := rest\<rparr>)))"
| "step (Settle i outcome) r =
     (if microtasks r = [] \<and> in_flight r i then
        Some (r\<lparr>settled := (settled r)(i \<mapsto> outcome),
                microtasks := map snd (filter (\<lambda>(p, j). p = i) (reactions r)),
                reactions := filter (\<lambda>(p, j). p \<noteq> i) (reactions r)\<rparr>)
      else None)"

fun run :: "action list \<Rightarrow> runtime \<Rightarrow> runtime option" where
  "run [] r = Some r"
| "run (a # as) r = (case step a r of None \<Rightarrow> None | Some r' \<Rightarrow> run as r')"

definition idle :: runtime where
  "idle = \<lparr>calls = [], keyLocks = Map.empty, settled = Map.empty, reactions = [], microtasks = []\<rparr>"

text \<open>
  What holds of the lock table in every state that can be reached: an entry of the table
  names a call of the key it is stored under; a call that waits at line 143 waits for a
  call of its own key; queued continuations and reactions are calls that exist.
\<close>

definition lock_table_ok :: "runtime \<Rightarrow> bool" where
  "lock_table_ok r \<longleftrightarrow>
     (\<forall>k p. keyLocks r k = Some p \<longrightarrow> p < length (calls r) \<and> k = lockKey r p)
   \<and> (\<forall>i p. i < length (calls r) \<and> snd (calls r ! i) = Line143 p \<longrightarrow>
          p < length (calls r) \<and> fst (calls r ! p) = fst (calls r ! i))
   \<and> (\<forall>i \<in> set (microtasks r). i < length (calls r))
   \<and> (\<forall>x \<in> set (reactions r). snd x < length (calls r))"

section \<open>A caller: the counter\<close>

text \<open>
  For runs on concrete inputs: the caller of the fallback scenario, key \<^verbatim>\<open>counter\<close> with
  \<^verbatim>\<open>updateFn = x => (x ?? 0) + 1\<close>. Its values are natural numbers, whose JSON text is the
  decimal numeral; \<open>parse_number\<close> reads such a numeral and \<^verbatim>\<open>null\<close> and reports every
  other text as a \<^verbatim>\<open>SyntaxError\<close>.
\<close>

definition digit_value :: "char \<Rightarrow> nat option" where
  "digit_value ch =
     map_of [(CHR ''0'', 0), (CHR ''1'', 1), (CHR ''2'', 2), (CHR ''3'', 3), (CHR ''4'', 4),
             (CHR ''5'', 5), (CHR ''6'', 6), (CHR ''7'', 7), (CHR ''8'', 8), (CHR ''9'', 9)] ch"

fun number_value :: "string \<Rightarrow> nat \<Rightarrow> nat option" where
  "number_value [] acc = Some acc"
| "number_value (ch # cs) acc =
     (case digit_value ch of None \<Rightarrow> None | Some d \<Rightarrow> number_value cs (10 * acc + d))"

definition parse_number :: "string \<Rightarrow> thrown + nat option" where
  "parse_number text =
     (if text = ''null'' then Inr None
      else if text = [] \<or> (hd text = CHR ''0'' \<and> tl text \<noteq> []) then Inl (Error ''SyntaxError'' text)
      else case number_value text 0 of
             None \<Rightarrow> Inl (Error ''SyntaxError'' text)
           | Some n \<Rightarrow> Inr (Some n))"

definition number_codec :: "nat codec" where
  "number_codec = \<lparr>JSON_parse = parse_number, JSON_stringify = (\<lambda>n. Inr (decimal n))\<rparr>"

definition increment :: "nat option \<Rightarrow> thrown + nat" where
  "increment x = Inr ((case x of None \<Rightarrow> 0 | Some n \<Rightarrow> n) + 1)"

section \<open>Facts about the table\<close>

lemma find_app:
  "find P (xs @ ys) = (case find P xs of None \<Rightarrow> find P ys | Some x \<Rightarrow> Some x)"
  by (induction xs) auto

lemma find_replace_other:
  "k \<noteq> key r \<Longrightarrow>
   find (\<lambda>x. key x = k) (map (\<lambda>x. if key x = key r then r else x) t) =
     find (\<lambda>x. key x = k) t"
  by (induction t) auto

lemma find_replace_same:
  "find (\<lambda>x. key x = key r) (map (\<lambda>x. if key x = key r then r else x) t) =
     (if find (\<lambda>x. key x = key r) t = None then None else Some r)"
  by (induction t) auto

lemma lookup_put_record:
  "lookup k (put_record r t) = (if k = key r then Some r else lookup k t)"
proof (cases "k = key r")
  case True
  show ?thesis
  proof (cases "find (\<lambda>x. key x = key r) t")
    case None
    with True show ?thesis
      by (simp add: lookup_def put_record_def find_app)
  next
    case (Some y)
    with True show ?thesis
      by (simp add: lookup_def put_record_def find_replace_same)
  qed
next
  case False
  then show ?thesis
    by (simp add: lookup_def put_record_def find_app find_replace_other split: option.split)
qed

lemma lookup_delete_key:
  "lookup k (delete_key k' t) = (if k = k' then None else lookup k t)"
  by (induction t) (auto simp: lookup_def delete_key_def)

lemma lookup_bulkPut_other:
  "k \<notin> key ` set rs \<Longrightarrow> lookup k (fold put_record rs t) = lookup k t"
  by (induction rs arbitrary: t) (auto simp: lookup_put_record)

lemma lookup_bulkPut:
  "lookup k (fold put_record rs t) =
     (if filter (\<lambda>r. key r = k) rs = [] then lookup k t
      else Some (last (filter (\<lambda>r. key r = k) rs)))"
  by (induction rs arbitrary: t) (auto simp: lookup_put_record)

lemma lookup_bulkDelete:
  "lookup k (fold delete_key ks t) = (if k \<in> set ks then None else lookup k t)"
  by (induction ks arbitrary: t) (auto simp: lookup_delete_key)

section \<open>Facts about requests, transactions and handlers\<close>

lemma io_bind_Inr:
  assumes "io_bind m f s = (Inr y, s')"
  obtains x s1 where "m s = (Inr x, s1)" and "f x s1 = (Inr y, s')"
  using assms by (auto simp: io_bind_def split: prod.splits sum.splits)

lemma io_catch_throw_Inr:
  assumes "io_catch m (\<lambda>error. io_throw (h error)) s = (Inr y, s')"
  shows "m s = (Inr y, s')"
  using assms by (auto simp: io_catch_def io_throw_def split: prod.splits sum.splits)

lemma io_catch_throw_Inl:
  assumes "io_catch m (\<lambda>error. io_throw (h error)) s = (Inl e, s')"
  obtains e' where "m s = (Inl e', s')"
  using assms by (auto simp: io_catch_def io_throw_def split: prod.splits sum.splits)

lemma io_catch_return_Inr:
  "\<exists>x. fst (io_catch m (\<lambda>error. io_return z) s) = Inr x"
  by (cases "m s") (auto simp: io_catch_def io_return_def split: sum.splits)

lemma request_Inr:
  assumes "request ev f s = (Inr r, s')"
  shows "storage s' = snd (f (storage s))" and "r = fst (f (storage s))" and "clock s' = clock s"
  using assms by (auto simp: request_def Let_def split: list.splits option.splits prod.splits)

lemma request_faults:
  assumes "request ev f s = (r, s')"
  shows "faults s' = tl (faults s)"
  using assms by (auto simp: request_def Let_def split: list.splits option.splits prod.splits)

lemma request_Inl:
  assumes "request ev f s = (Inl e, s')"
  shows "Some e \<in> set (faults s)" and "storage s' = storage s"
  using assms by (auto simp: request_def Let_def split: list.splits option.splits prod.splits)

lemma set_tl_subset: "set (tl xs) \<subseteq> set xs"
  by (cases xs) auto

text \<open>
  A transaction that fails leaves the table as it was, or it has been committed too early:
  then the body had completed, its writes are in the table, and the error is a fault of
  the script named \<^verbatim>\<open>PrematureCommitError\<close>.
\<close>

lemma transaction_Inl:
  assumes "transaction body s = (Inl e, s')"
  shows "storage s' = storage s
       \<or> (\<exists>r s1. body (s\<lparr>trace := trace s @ [Transaction]\<rparr>) = (Inr r, s1)
            \<and> storage s' = storage s1 \<and> Some e \<in> set (faults s1)
            \<and> isError e \<and> name e = ''PrematureCommitError'')"
proof (cases "body (s\<lparr>trace := trace s @ [Transaction]\<rparr>)")
  case (Pair x s1)
  show ?thesis
  proof (cases x)
    case (Inl e1)
    with Pair assms show ?thesis by (auto simp: transaction_def)
  next
    case (Inr r)
    with Pair assms obtain s2 where c: "request Commit (\<lambda>t. ((), t)) s1 = (Inl e, s2)"
      and d: "s' = (if isError e \<and> name e = ''PrematureCommitError'' then s2
                    else s2\<lparr>storage := storage s\<rparr>)"
      by (auto simp: transaction_def split: prod.splits sum.splits if_splits)
    show ?thesis
    proof (cases "isError e \<and> name e = ''PrematureCommitError''")
      case True
      with d request_Inl [OF c] Pair Inr show ?thesis by simp
    next
      case False
      with d show ?thesis by simp
    qed
  qed
qed

lemma transaction_Inr:
  assumes "transaction body s = (Inr r, s')"
  obtains s1 where "body (s\<lparr>trace := trace s @ [Transaction]\<rparr>) = (Inr r, s1)"
    and "storage s' = storage s1"
proof -
  from assms obtain s1 u where b: "body (s\<lparr>trace := trace s @ [Transaction]\<rparr>) = (Inr r, s1)"
    and c: "request Commit (\<lambda>t. ((), t)) s1 = (Inr u, s')"
    by (auto simp: transaction_def split: prod.splits sum.splits if_splits)
  from request_Inr(1) [OF c] have "storage s' = storage s1" by simp
  with b show ?thesis by (rule that)
qed

lemma initialize_Inr:
  assumes "initialize s = (Inr u, s')"
  shows "s' = s"
  using assms by (auto simp: initialize_def split: option.splits)

lemma first_fault_of_three:
  assumes "Some e \<in> set (take 3 fs)"
  shows "(\<exists>e' r. fs = Some e' # r) \<or> (\<exists>e' r. fs = None # Some e' # r)
       \<or> (\<exists>e' r. fs = None # None # Some e' # r)"
proof (cases fs)
  case Nil
  with assms show ?thesis by simp
next
  case (Cons a r1)
  note fs = this
  show ?thesis
  proof (cases a)
    case (Some e')
    with fs show ?thesis by simp
  next
    case None
    note a = this
    show ?thesis
    proof (cases r1)
      case Nil
      with fs a assms show ?thesis by simp
    next
      case (Cons b r2)
      note r1 = this
      show ?thesis
      proof (cases b)
        case (Some e')
        with fs a r1 show ?thesis by simp
      next
        case None
        note b = this
        show ?thesis
        proof (cases r2)
          case Nil
          with fs a r1 b assms show ?thesis by simp
        next
          case (Cons c r3)
          with fs a r1 b assms show ?thesis
            by (cases c) (simp_all add: numeral_3_eq_3)
        qed
      qed
    qed
  qed
qed

section \<open>Facts about getItem and setItem\<close>

text \<open>With the store open and no fault at the next request, both calls succeed.\<close>

lemma setItem_succeeds:
  assumes "dbOpened s = None" and "faults s = [] \<or> hd (faults s) = None"
  shows "setItem k v s =
           (Inr (), s\<lparr>faults := tl (faults s), trace := trace s @ [Put k],
                      storage := put_record \<lparr>key = k, value = v, timestamp = Some (clock s)\<rparr> (storage s)\<rparr>)"
proof (cases "faults s")
  case Nil
  with assms(1) show ?thesis
    by (simp add: setItem_def io_bind_def io_catch_def initialize_def Date_now_def
        storage_put_def request_def)
next
  case (Cons a rest)
  with assms(2) have "a = None" by simp
  with Cons assms(1) show ?thesis
    by (simp add: setItem_def io_bind_def io_catch_def initialize_def Date_now_def
        storage_put_def request_def)
qed

lemma getItem_succeeds:
  assumes "dbOpened s = None" and "faults s = [] \<or> hd (faults s) = None"
  shows "getItem k s =
           (Inr (map_option value (lookup k (storage s))),
            s\<lparr>faults := tl (faults s), trace := trace s @ [Get k]\<rparr>)"
proof (cases "faults s")
  case Nil
  with assms(1) show ?thesis
    by (simp add: getItem_def io_bind_def io_catch_def io_return_def initialize_def
        storage_get_def request_def)
next
  case (Cons a rest)
  with assms(2) have "a = None" by simp
  with Cons assms(1) show ?thesis
    by (simp add: getItem_def io_bind_def io_catch_def io_return_def initialize_def
        storage_get_def request_def)
qed

lemma no_fault_in_two:
  assumes "\<forall>f \<in> set (take 2 fs). f = None"
  shows "(fs = [] \<or> hd fs = None) \<and> (tl fs = [] \<or> hd (tl fs) = None)"
proof (cases fs)
  case Nil
  then show ?thesis by simp
next
  case (Cons a rest)
  with assms show ?thesis
    by (cases rest) (simp_all add: numeral_2_eq_2)
qed

text \<open>
  The same with other calls in between: in any later state \<open>s'\<close> in which the record of
  \<open>k\<close> is the one that \<open>setItem\<close> has left, \<open>getItem\<close> returns \<open>v\<close>.
\<close>

lemma getItem_after_setItem:
  assumes "dbOpened s = None" and "faults s = [] \<or> hd (faults s) = None"
    and "dbOpened s' = None" and "faults s' = [] \<or> hd (faults s') = None"
    and "lookup k (storage s') = lookup k (storage (snd (setItem k v s)))"
  shows "fst (getItem k s') = Inr (Some v)"
  using getItem_succeeds [OF assms(3,4), of k] setItem_succeeds [OF assms(1,2), of k v] assms(5)
  by (simp add: lookup_put_record)

section \<open>Facts about the retry loop\<close>

declare performAtomicUpdateWithRetry_loop.simps [simp del]

text \<open>
  Whatever makes the transaction fail, \<^verbatim>\<open>_performAtomicUpdate\<close> throws a \<^verbatim>\<open>new Error\<close>: the
  name that reaches the handler of the loop is \<^verbatim>\<open>Error\<close>, never \<^verbatim>\<open>PrematureCommitError\<close>.
\<close>

lemma performAtomicUpdate_throws_new_Error:
  "performAtomicUpdate c k updateFn s = (Inl e, s1) \<Longrightarrow> name e = ''Error'' \<and> isError e"
  by (auto simp: performAtomicUpdate_def io_catch_def io_throw_def new_Error_def
      split: prod.splits sum.splits if_splits)

lemma loop_next_attempt:
  assumes "attempt < maxRetries" and "attempt' = attempt + 1"
    and "performAtomicUpdate c k updateFn s = (Inl e, s1)"
  shows "performAtomicUpdateWithRetry_loop c k updateFn maxRetries attempt lastError s =
         performAtomicUpdateWithRetry_loop c k updateFn maxRetries attempt' (Some e) s1"
  using assms performAtomicUpdate_throws_new_Error [OF assms(3)]
  by (subst performAtomicUpdateWithRetry_loop.simps) simp

lemma loop_last_attempt:
  assumes "performAtomicUpdate c k updateFn s = (Inl e, s1)"
  shows "performAtomicUpdateWithRetry_loop c k updateFn maxRetries maxRetries lastError s =
           (case performSimpleUpdate c k updateFn s1 of
              (Inr u, s2) \<Rightarrow> (Inr (), s2)
            | (Inl fallbackError, s2) \<Rightarrow> (Inl e, s2))"
  using assms performAtomicUpdate_throws_new_Error [OF assms]
  by (subst performAtomicUpdateWithRetry_loop.simps) simp

lemma request_clock: "clock (snd (request ev f s)) = clock s"
  by (simp add: request_def Let_def split: list.splits option.splits prod.splits)

lemma io_bind_clock:
  assumes "\<And>s. clock (snd (m s)) = clock s" and "\<And>x s. clock (snd (f x s)) = clock s"
  shows "clock (snd (io_bind m f s)) = clock s"
proof (cases "m s")
  case (Pair r s1)
  with assms(1) [of s] have c: "clock s1 = clock s" by simp
  show ?thesis
  proof (cases r)
    case (Inl e)
    with Pair c show ?thesis by (simp add: io_bind_def)
  next
    case (Inr x)
    with Pair c assms(2) [of x s1] show ?thesis by (simp add: io_bind_def)
  qed
qed

lemma io_catch_clock:
  assumes "\<And>s. clock (snd (m s)) = clock s" and "\<And>e s. clock (snd (h e s)) = clock s"
  shows "clock (snd (io_catch m h s)) = clock s"
proof (cases "m s")
  case (Pair r s1)
  with assms(1) [of s] have c: "clock s1 = clock s" by simp
  show ?thesis
  proof (cases r)
    case (Inl e)
    with Pair c assms(2) [of e s1] show ?thesis by (simp add: io_catch_def)
  next
    case (Inr x)
    with Pair c show ?thesis by (simp add: io_catch_def)
  qed
qed

lemma transaction_clock:
  assumes "\<And>s. clock (snd (body s)) = clock s"
  shows "clock (snd (transaction body s)) = clock s"
proof (cases "body (s\<lparr>trace := trace s @ [Transaction]\<rparr>)")
  case (Pair r s1)
  with assms [of "s\<lparr>trace := trace s @ [Transaction]\<rparr>"] have c: "clock s1 = clock s" by simp
  show ?thesis
  proof (cases r)
    case (Inl e)
    with Pair c show ?thesis by (simp add: transaction_def)
  next
    case (Inr x)
    with Pair c request_clock [of Commit "\<lambda>t. ((), t)" s1] show ?thesis
      by (auto simp: transaction_def split: prod.splits sum.splits if_splits)
  qed
qed

lemma io_lift_clock: "clock (snd (io_lift r s)) = clock s"
  by (simp add: io_lift_def)

lemma io_throw_clock: "clock (snd (io_throw e s)) = clock s"
  by (simp add: io_throw_def)

lemma Date_now_clock: "clock (snd (Date_now s)) = clock s"
  by (simp add: Date_now_def)

lemmas clock_rules = io_bind_clock io_catch_clock transaction_clock request_clock io_lift_clock
  io_throw_clock Date_now_clock

lemma performAtomicUpdate_clock:
  "clock (snd (performAtomicUpdate c k updateFn s)) = clock s"
  unfolding performAtomicUpdate_def storage_get_def storage_put_def
  by (intro clock_rules) (simp_all add: io_throw_clock)

lemma performSimpleUpdate_clock:
  "clock (snd (performSimpleUpdate c k updateFn s)) = clock s"
  unfolding performSimpleUpdate_def storage_get_def storage_put_def
  by (intro clock_rules)

lemma loop_clock:
  "clock (snd (performAtomicUpdateWithRetry_loop c k updateFn maxRetries attempt lastError s)) = clock s"
proof (induction c k updateFn maxRetries attempt lastError s rule: performAtomicUpdateWithRetry_loop.induct)
  case (1 c k updateFn maxRetries attempt lastError s)
  show ?case
  proof (cases "attempt \<le> maxRetries")
    case False
    then show ?thesis by (subst performAtomicUpdateWithRetry_loop.simps) simp
  next
    case True
    note le = this
    obtain r s1 where p: "performAtomicUpdate c k updateFn s = (r, s1)"
      by (cases "performAtomicUpdate c k updateFn s")
    with performAtomicUpdate_clock [of c k updateFn s] have c1: "clock s1 = clock s" by simp
    show ?thesis
    proof (cases r)
      case (Inr u)
      with le p c1 show ?thesis by (subst performAtomicUpdateWithRetry_loop.simps) simp
    next
      case (Inl e)
      with p have pe: "performAtomicUpdate c k updateFn s = (Inl e, s1)" by simp
      note n = performAtomicUpdate_throws_new_Error [OF pe]
      show ?thesis
      proof (cases "attempt = maxRetries")
        case True
        with le pe n c1 performSimpleUpdate_clock [of c k updateFn s1] show ?thesis
          by (subst performAtomicUpdateWithRetry_loop.simps) (auto split: prod.splits sum.splits)
      next
        case False
        with le pe n have "performAtomicUpdateWithRetry_loop c k updateFn maxRetries attempt lastError s =
            performAtomicUpdateWithRetry_loop c k updateFn maxRetries (attempt + 1) (Some e) s1"
          by (subst performAtomicUpdateWithRetry_loop.simps) simp
        moreover from le False pe n
        have "clock (snd (performAtomicUpdateWithRetry_loop c k updateFn maxRetries (attempt + 1) (Some e) s1)) = clock s1"
          by (intro "1.IH"(2)) simp_all
        ultimately show ?thesis using c1 by simp
      qed
    qed
  qed
qed

text \<open>
  So no call of \<open>atomicUpdate\<close> ever waits: the clock, which only \<^verbatim>\<open>setTimeout\<close> advances,
  is after the call what it was before.
\<close>

lemma atomicUpdate_never_waits:
  "clock (snd (atomicUpdate c k updateFn s)) = clock s"
  by (simp add: atomicUpdate_def performAtomicUpdateWithRetry_def io_bind_def initialize_def loop_clock
      split: option.splits)


section \<open>Facts about batchUpdate\<close>

lemma batch_loop_eq:
  "batch_loop now ops updates deletions =
     (updates @ map (\<lambda>x. \<lparr>key = op_key x, value = the (op_value x), timestamp = Some now\<rparr>)
                  (filter (\<lambda>x. operation x = Op_set \<and> op_value x \<noteq> None) ops),
      deletions @ map op_key (filter (\<lambda>x. operation x = Op_remove) ops))"
  by (induction ops arbitrary: updates deletions) auto

lemma batch_loop_skip:
  "batch_loop now (xs @ \<lparr>op_key = k, operation = Op_set, op_value = None\<rparr> # ys) updates deletions =
   batch_loop now (xs @ ys) updates deletions"
  by (induction xs arbitrary: updates deletions) auto

lemma bulkPut_if_Inr:
  assumes "(if us \<noteq> [] then storage_bulkPut us else io_return ()) s = (Inr u, s')"
  shows "storage s' = fold put_record us (storage s) \<and> set (faults s') \<subseteq> set (faults s)"
proof (cases "us = []")
  case True
  with assms show ?thesis
    by (simp add: io_return_def)
next
  case False
  with assms have r: "request (BulkPut (map key us)) (\<lambda>t. ((), fold put_record us t)) s = (Inr u, s')"
    by (simp add: storage_bulkPut_def)
  from request_Inr(1) [OF r] request_faults [OF r] show ?thesis
    by (simp add: set_tl_subset)
qed

lemma bulkDelete_if_Inr:
  assumes "(if ds \<noteq> [] then storage_bulkDelete ds else io_return ()) s = (Inr u, s')"
  shows "storage s' = fold delete_key ds (storage s) \<and> set (faults s') \<subseteq> set (faults s)"
proof (cases "ds = []")
  case True
  with assms show ?thesis
    by (simp add: io_return_def)
next
  case False
  with assms have r: "request (BulkDelete ds) (\<lambda>t. ((), fold delete_key ds t)) s = (Inr u, s')"
    by (simp add: storage_bulkDelete_def)
  from request_Inr(1) [OF r] request_faults [OF r] show ?thesis
    by (simp add: set_tl_subset)
qed

text \<open>The body of the transaction of \<open>batchUpdate\<close>, when it completes.\<close>

lemma batch_body_Inr:
  assumes "io_bind Date_now (\<lambda>now.
               case batch_loop now ops [] [] of
                 (updates, deletions) \<Rightarrow>
                   io_bind (if updates \<noteq> [] then storage_bulkPut updates else io_return ()) (\<lambda>_.
                     if deletions \<noteq> [] then storage_bulkDelete deletions else io_return ())) s0 = (Inr u, s2)"
  shows "storage s2 =
           fold delete_key (snd (batch_loop (clock s0) ops [] []))
             (fold put_record (fst (batch_loop (clock s0) ops [] [])) (storage s0))"
    and "set (faults s2) \<subseteq> set (faults s0)"
proof -
  obtain us ds where ud: "batch_loop (clock s0) ops [] [] = (us, ds)"
    by (cases "batch_loop (clock s0) ops [] []")
  from assms ud have "io_bind (if us \<noteq> [] then storage_bulkPut us else io_return ()) (\<lambda>_.
                     if ds \<noteq> [] then storage_bulkDelete ds else io_return ()) s0 = (Inr u, s2)"
    by (simp add: io_bind_def Date_now_def)
  then obtain w s3 where p: "(if us \<noteq> [] then storage_bulkPut us else io_return ()) s0 = (Inr w, s3)"
    and d: "(if ds \<noteq> [] then storage_bulkDelete ds else io_return ()) s3 = (Inr u, s2)"
    by (rule io_bind_Inr)
  from bulkPut_if_Inr [OF p] bulkDelete_if_Inr [OF d] ud
  show "storage s2 =
           fold delete_key (snd (batch_loop (clock s0) ops [] []))
             (fold put_record (fst (batch_loop (clock s0) ops [] [])) (storage s0))"
    by simp
  from bulkPut_if_Inr [OF p] bulkDelete_if_Inr [OF d]
  show "set (faults s2) \<subseteq> set (faults s0)"
    by blast
qed

lemma batchUpdate_success:
  assumes "batchUpdate ops s = (Inr u, s')"
  shows "storage s' =
           fold delete_key (snd (batch_loop (clock s) ops [] []))
             (fold put_record (fst (batch_loop (clock s) ops [] [])) (storage s))"
proof -
  let ?s0 = "s\<lparr>trace := trace s @ [Transaction]\<rparr>"
  from assms obtain v s1 where i: "initialize s = (Inr v, s1)"
    and t: "io_catch (transaction
            (io_bind Date_now (\<lambda>now.
               case batch_loop now ops [] [] of
                 (updates, deletions) \<Rightarrow>
                   io_bind (if updates \<noteq> [] then storage_bulkPut updates else io_return ()) (\<lambda>_.
                     if deletions \<noteq> [] then storage_bulkDelete deletions else io_return ()))))
         (\<lambda>error. io_throw (new_Error ''Failed to perform batch update'')) s1 = (Inr u, s')"
    unfolding batchUpdate_def by (rule io_bind_Inr)
  from i have [simp]: "s1 = s" by (rule initialize_Inr)
  from io_catch_throw_Inr [OF t] obtain s2 where
    b: "io_bind Date_now (\<lambda>now.
               case batch_loop now ops [] [] of
                 (updates, deletions) \<Rightarrow>
                   io_bind (if updates \<noteq> [] then storage_bulkPut updates else io_return ()) (\<lambda>_.
                     if deletions \<noteq> [] then storage_bulkDelete deletions else io_return ())) ?s0 = (Inr u, s2)"
    and s2: "storage s' = storage s2"
    by (auto elim: transaction_Inr)
  from batch_body_Inr(1) [OF b] s2 show ?thesis
    by simp
qed

text \<open>
  A batch that fails has left the table as it was, or its transaction has been committed
  too early: then all its entries are applied, and the script held a fault named
  \<^verbatim>\<open>PrematureCommitError\<close>.
\<close>

lemma batchUpdate_failure:
  assumes "batchUpdate ops s = (Inl e, s')"
  shows "storage s' = storage s
       \<or> (storage s' =
             fold delete_key (snd (batch_loop (clock s) ops [] []))
               (fold put_record (fst (batch_loop (clock s) ops [] [])) (storage s))
          \<and> (\<exists>m. Some (Error ''PrematureCommitError'' m) \<in> set (faults s)))"
proof (cases "dbOpened s")
  case (Some e0)
  with assms show ?thesis
    by (simp add: batchUpdate_def io_bind_def initialize_def)
next
  case None
  let ?s0 = "s\<lparr>trace := trace s @ [Transaction]\<rparr>"
  let ?body = "io_bind Date_now (\<lambda>now.
               case batch_loop now ops [] [] of
                 (updates, deletions) \<Rightarrow>
                   io_bind (if updates \<noteq> [] then storage_bulkPut updates else io_return ()) (\<lambda>_.
                     if deletions \<noteq> [] then storage_bulkDelete deletions else io_return ()))"
  from None assms obtain e' where t: "transaction ?body s = (Inl e', s')"
    by (auto simp: batchUpdate_def io_bind_def initialize_def elim: io_catch_throw_Inl)
  from transaction_Inl [OF t] show ?thesis
  proof
    assume "storage s' = storage s"
    then show ?thesis by simp
  next
    assume "\<exists>r s1. ?body ?s0 = (Inr r, s1) \<and> storage s' = storage s1 \<and> Some e' \<in> set (faults s1)
        \<and> isError e' \<and> name e' = ''PrematureCommitError''"
    then obtain r s1 where b: "?body ?s0 = (Inr r, s1)" and st: "storage s' = storage s1"
      and f: "Some e' \<in> set (faults s1)"
      and n: "isError e' \<and> name e' = ''PrematureCommitError''"
      by blast
    from n have e': "e' = Error ''PrematureCommitError'' (message e')"
      by (cases e') simp_all
    from batch_body_Inr(2) [OF b] f have "Some e' \<in> set (faults s)" by auto
    with e' have "\<exists>m. Some (Error ''PrematureCommitError'' m) \<in> set (faults s)"
      by metis
    with batch_body_Inr(1) [OF b] st show ?thesis by simp
  qed
qed

section \<open>Facts about getStorageInfo\<close>

lemma getStorageInfo_opened:
  assumes "dbOpened s = None"
  shows "getStorageInfo s =
     io_catch
         (io_bind storage_count (\<lambda>count.
          io_bind storage_orderBy_timestamp_last (\<lambda>lastRecord.
          io_bind storage_toArray (\<lambda>allRecords.
            io_return
              \<lparr>itemCount = count,
               estimatedSize = foldl (\<lambda>total record. total + length (value record)) 0 allRecords,
               lastUpdated = (case lastRecord of None \<Rightarrow> None | Some r \<Rightarrow> timestamp r)\<rparr>))))
         (\<lambda>error. io_return \<lparr>itemCount = 0, estimatedSize = 0, lastUpdated = None\<rparr>) s"
  using assms by (simp add: getStorageInfo_def io_bind_def initialize_def)

section \<open>Facts about the key locks\<close>

lemma lock_table_ok_idle: "lock_table_ok idle"
  by (simp add: lock_table_ok_def idle_def)

lemma goto_fields [simp]:
  "length (calls (goto i pos r)) = length (calls r)"
  "keyLocks (goto i pos r) = keyLocks r"
  "settled (goto i pos r) = settled r"
  "microtasks (goto i pos r) = microtasks r"
  "reactions (goto i pos r) = reactions r"
  by (simp_all add: goto_def)

lemma goto_key [simp]:
  "j < length (calls r) \<Longrightarrow> fst (calls (goto i pos r) ! j) = fst (calls r ! j)"
  by (cases "i = j") (simp_all add: goto_def)

lemma goto_position [simp]:
  "j < length (calls r) \<Longrightarrow>
   snd (calls (goto i pos r) ! j) = (if j = i then pos else snd (calls r ! j))"
  by (cases "i = j") (simp_all add: goto_def)

lemma lockKey_goto [simp]: "j < length (calls r) \<Longrightarrow> lockKey (goto i pos r) j = lockKey r j"
  by (simp add: lockKey_def)

lemma lockKey_eq: "lockKey r i = lockKey r j \<longleftrightarrow> fst (calls r ! i) = fst (calls r ! j)"
  by (simp add: lockKey_def)

lemma lock_table_ok_goto:
  assumes "lock_table_ok r" and "i < length (calls r)"
    and "\<And>p. pos = Line143 p \<Longrightarrow> p < length (calls r) \<and> fst (calls r ! p) = fst (calls r ! i)"
  shows "lock_table_ok (goto i pos r)"
  unfolding lock_table_ok_def
proof (intro conjI allI impI ballI)
  fix k p assume "keyLocks (goto i pos r) k = Some p"
  with assms(1) have "p < length (calls r) \<and> k = lockKey r p"
    by (simp add: lock_table_ok_def)
  then show "p < length (calls (goto i pos r))" and "k = lockKey (goto i pos r) p"
    by simp_all
next
  fix j p
  assume a: "j < length (calls (goto i pos r)) \<and> snd (calls (goto i pos r) ! j) = Line143 p"
  then have j: "j < length (calls r)" by simp
  have "p < length (calls r) \<and> fst (calls r ! p) = fst (calls r ! j)"
  proof (cases "j = i")
    case True
    with a j assms(3) [of p] show ?thesis by simp
  next
    case False
    with a j assms(1) show ?thesis by (simp add: lock_table_ok_def)
  qed
  with j show "p < length (calls (goto i pos r))"
    and "fst (calls (goto i pos r) ! p) = fst (calls (goto i pos r) ! j)"
    by simp_all
next
  fix j assume "j \<in> set (microtasks (goto i pos r))"
  with assms(1) show "j < length (calls (goto i pos r))"
    by (simp add: lock_table_ok_def)
next
  fix x assume "x \<in> set (reactions (goto i pos r))"
  with assms(1) show "snd x < length (calls (goto i pos r))"
    by (simp add: lock_table_ok_def)
qed

lemma lock_table_ok_await:
  assumes "lock_table_ok r" and "i < length (calls r)"
  shows "lock_table_ok (await i p r)"
  using assms unfolding lock_table_ok_def await_def
  by (auto simp: lockKey_def split: option.splits)

lemma lock_table_ok_lock:
  assumes "lock_table_ok r" and "i < length (calls r)"
  shows "lock_table_ok (r\<lparr>keyLocks := (keyLocks r)(lockKey r i \<mapsto> i)\<rparr>)"
  using assms unfolding lock_table_ok_def
  by (auto simp: lockKey_def)

lemma lock_table_ok_unlock:
  assumes "lock_table_ok r"
  shows "lock_table_ok (r\<lparr>keyLocks := (keyLocks r)(k := None)\<rparr>)"
  using assms unfolding lock_table_ok_def
  by (auto simp: lockKey_def)

lemma lock_table_ok_lines_146_150:
  assumes "lock_table_ok r" and "i < length (calls r)"
  shows "lock_table_ok (lines_146_150 i r)"
  unfolding lines_146_150_def
  using assms by (intro lock_table_ok_await lock_table_ok_goto lock_table_ok_lock) simp_all

lemma lock_table_ok_resume:
  assumes "lock_table_ok r" and "i < length (calls r)"
  shows "lock_table_ok (resume i r)"
proof (cases "snd (calls r ! i)")
  case Line138
  show ?thesis
  proof (cases "keyLocks r (lockKey r i)")
    case None
    with Line138 assms show ?thesis
      by (simp add: resume_def lock_table_ok_lines_146_150)
  next
    case (Some p)
    with assms(1) have "p < length (calls r) \<and> fst (calls r ! p) = fst (calls r ! i)"
      unfolding lock_table_ok_def by (simp add: lockKey_eq [symmetric])
    with assms have "lock_table_ok (await i p (goto i (Line143 p) r))"
      by (intro lock_table_ok_await lock_table_ok_goto) simp_all
    with Line138 Some show ?thesis
      by (simp add: resume_def)
  qed
next
  case (Line143 p)
  show ?thesis
  proof (cases "settled r p")
    case None
    with Line143 assms show ?thesis by (simp add: resume_def)
  next
    case (Some outcome)
    show ?thesis
    proof (cases outcome)
      case Fulfilled
      with Some Line143 assms show ?thesis by (simp add: resume_def lock_table_ok_lines_146_150)
    next
      case (Rejected e)
      from assms have "lock_table_ok (goto i (Threw e) r)" by (rule lock_table_ok_goto) simp
      with Rejected Some Line143 show ?thesis by (simp add: resume_def)
    qed
  qed
next
  case Line150
  have u: "lock_table_ok (goto i Returned (r\<lparr>keyLocks := (keyLocks r)(lockKey r i := None)\<rparr>))"
    using assms by (intro lock_table_ok_goto lock_table_ok_unlock) simp_all
  have v: "lock_table_ok (goto i (Threw e) (r\<lparr>keyLocks := (keyLocks r)(lockKey r i := None)\<rparr>))" for e
    using assms by (intro lock_table_ok_goto lock_table_ok_unlock) simp_all
  show ?thesis
  proof (cases "settled r i")
    case None
    with Line150 assms show ?thesis by (simp add: resume_def)
  next
    case (Some outcome)
    with Line150 u v show ?thesis
      by (cases outcome) (simp_all add: resume_def)
  qed
next
  case Returned
  with assms show ?thesis by (simp add: resume_def)
next
  case (Threw e)
  with assms show ?thesis by (simp add: resume_def)
qed

lemma lock_table_ok_step:
  assumes "lock_table_ok r" and "step a r = Some r'"
  shows "lock_table_ok r'"
proof (cases a)
  case (Call k)
  with assms(2) have r': "r' = r\<lparr>calls := calls r @ [(k, Line138)], microtasks := microtasks r @ [length (calls r)]\<rparr>"
    by simp
  from assms(1) show ?thesis
    unfolding r' lock_table_ok_def lockKey_def
    by (auto simp: nth_append less_Suc_eq)
next
  case Microtask
  with assms(2) obtain i rest where m: "microtasks r = i # rest"
    and r': "r' = resume i (r\<lparr>microtasks := rest\<rparr>)"
    by (auto split: list.splits)
  from assms(1) m have "lock_table_ok (r\<lparr>microtasks := rest\<rparr>)" and "i < length (calls (r\<lparr>microtasks := rest\<rparr>))"
    unfolding lock_table_ok_def lockKey_def by auto
  then show ?thesis unfolding r' by (rule lock_table_ok_resume)
next
  case (Settle i outcome)
  with assms(2) have r': "r' = r\<lparr>settled := (settled r)(i \<mapsto> outcome),
                microtasks := map snd (filter (\<lambda>(p, j). p = i) (reactions r)),
                reactions := filter (\<lambda>(p, j). p \<noteq> i) (reactions r)\<rparr>"
    by (auto split: if_splits)
  from assms(1) show ?thesis
    unfolding r' lock_table_ok_def lockKey_def by auto
qed

lemma lock_table_ok_run:
  assumes "lock_table_ok r" and "run as r = Some r'"
  shows "lock_table_ok r'"
  using assms
  by (induction as arbitrary: r) (auto split: option.splits dest: lock_table_ok_step)

text \<open>
  A call that runs while no other call is pending finds no entry at line 142, holds the
  lock of its key while its update is in flight, and leaves the table without the entry.
\<close>

lemma lone_call_takes_and_releases_the_lock:
  "(case run [Call k, Microtask] idle of
      None \<Rightarrow> False
    | Some r \<Rightarrow> calls r = [(k, Line150)] \<and> in_flight r 0 \<and> keyLocks r (''atomic_'' @ k) = Some 0)
   \<and> (case run [Call k, Microtask, Settle 0 Fulfilled, Microtask] idle of
         None \<Rightarrow> False
       | Some r \<Rightarrow> calls r = [(k, Returned)] \<and> keyLocks r (''atomic_'' @ k) = None)"
  by (simp add: idle_def resume_def lines_146_150_def await_def goto_def lockKey_def in_flight_def)


text \<open>
  Calls for different keys do not wait for each other: whenever a call is suspended at
  line 143, the promise it awaits is that of a call for its own key.
\<close>

lemma waits_only_for_its_own_key:
  assumes "run as idle = Some r" and "i < length (calls r)" and "snd (calls r ! i) = Line143 p"
  shows "p < length (calls r) \<and> fst (calls r ! p) = fst (calls r ! i)"
  using lock_table_ok_run [OF lock_table_ok_idle assms(1)] assms(2,3) unfolding lock_table_ok_def by blast


section \<open>The retry loop: waiting, falling back, giving up\<close>

text \<open>
  C1. A transactional attempt that fails with a transient commit conflict while attempts
  remain is to be followed by a wait of \<open>min (100 * 2 ^ (attempt - 1)) 1000\<close> milliseconds
  before the next attempt. Here the commit of the first attempt fails with Dexie's
  \<^verbatim>\<open>PrematureCommitError\<close>. The code retries at once: the second transaction follows the
  failed commit with no \<open>SetTimeout 100\<close> between them, and the clock has not moved. (The
  write of the first attempt has stayed, so the second attempt counts from it.)
\<close>

theorem atomicUpdate_conflict_retried_without_wait:
  "atomicUpdate number_codec ''counter'' increment
     (constructor [] [None, None, None, Some (Error ''PrematureCommitError'' ''conflict'')] 0) =
   (Inr (),
    \<lparr>dbOpened = None,
     storage = [\<lparr>key = ''counter'', value = ''2'', timestamp = Some 0\<rparr>],
     faults = [], clock = 0,
     trace = [Open, Transaction, Get ''counter'', Put ''counter'', Commit,
              Transaction, Get ''counter'', Put ''counter'', Commit]\<rparr>)"
  by code_simp

section \<open>The key locks: three callers of one key\<close>

text \<open>
  C2. At most one atomic update of a key is to execute at a time, and a queued caller is to
  see the result of the caller before it. Three calls for the key \<^verbatim>\<open>k\<close> are made in a
  row; the second and the third find the lock of the first and wait for it (line 143).
  When the first update ends, both go on to line 146 without looking at the lock table
  again: the updates of the second and the third call are in flight together, and the
  table holds only the promise of the third. And when the first update of two calls is
  rejected, the second call throws that rejection at line 143 and never starts its update.
\<close>

theorem keyLocks_admit_two_updates_of_one_key:
  "(case run [Call ''k'', Call ''k'', Call ''k'', Microtask, Microtask, Microtask,
              Settle 0 Fulfilled, Microtask, Microtask, Microtask] idle of
      None \<Rightarrow> False
    | Some r \<Rightarrow>
        calls r = [(''k'', Returned), (''k'', Line150), (''k'', Line150)]
        \<and> in_flight r 1 \<and> in_flight r 2 \<and> keyLocks r ''atomic_k'' = Some 2)
   \<and> (case run [Call ''k'', Call ''k'', Microtask, Microtask,
                 Settle 0 (Rejected (new_Error ''Failed to perform atomic update: k'')),
                 Microtask, Microtask] idle of
         None \<Rightarrow> False
       | Some r \<Rightarrow>
           calls r = [(''k'', Threw (new_Error ''Failed to perform atomic update: k'')),
                      (''k'', Threw (new_Error ''Failed to perform atomic update: k''))]
           \<and> settled r 1 = None)"
  by (simp add: idle_def resume_def lines_146_150_def await_def goto_def lockKey_def in_flight_def)

section \<open>The retry loop: a failure that is no commit conflict\<close>

text \<open>
  C3. A transactional attempt that fails for another reason than a transient commit
  conflict is to be followed by the simple update at once, with no further transactional
  attempt. In the first run the stored value of the key is no JSON text, so the
  \<^verbatim>\<open>JSON.parse\<close> inside the transaction throws a \<^verbatim>\<open>SyntaxError\<close>: the code opens three
  transactions, one after the other, before it comes to the simple update. In the second
  run the read inside the first transaction fails with a \<^verbatim>\<open>DataError\<close>: the code opens a
  second transaction, which succeeds, and sends no request outside a transaction.
\<close>

theorem atomicUpdate_other_failure_retried_in_transaction:
  "atomicUpdate number_codec ''counter'' increment
     (constructor [\<lparr>key = ''counter'', value = ''oops'', timestamp = Some 1\<rparr>] [] 2) =
   (Inl (Error ''Error'' ''Failed to perform atomic update: counter''),
    \<lparr>dbOpened = None,
     storage = [\<lparr>key = ''counter'', value = ''oops'', timestamp = Some 1\<rparr>],
     faults = [], clock = 2,
     trace = [Open, Transaction, Get ''counter'', Transaction, Get ''counter'',
              Transaction, Get ''counter'', Get ''counter'']\<rparr>)
   \<and> atomicUpdate number_codec ''counter'' increment
     (constructor [] [None, Some (Error ''DataError'' ''bad key'')] 0) =
   (Inr (),
    \<lparr>dbOpened = None,
     storage = [\<lparr>key = ''counter'', value = ''1'', timestamp = Some 0\<rparr>],
     faults = [], clock = 0,
     trace = [Open, Transaction, Get ''counter'',
              Transaction, Get ''counter'', Put ''counter'', Commit]\<rparr>)"
  by code_simp

section \<open>batchUpdate: what a batch leaves in the table\<close>

text \<open>
  C4, as the specification states it: the last entry of a key decides, so a set after a
  remove of the same key leaves the key set. The code leaves the key absent.
\<close>

theorem batchUpdate_remove_then_set_counterexample:
  "fst (batchUpdate [\<lparr>op_key = ''a'', operation = Op_remove, op_value = None\<rparr>,
                     \<lparr>op_key = ''a'', operation = Op_set, op_value = Some ''1''\<rparr>]
          (constructor [] [] 5)) = Inr ()
   \<and> lookup ''a'' (storage (snd (batchUpdate
          [\<lparr>op_key = ''a'', operation = Op_remove, op_value = None\<rparr>,
           \<lparr>op_key = ''a'', operation = Op_set, op_value = Some ''1''\<rparr>]
          (constructor [] [] 5)))) = None"
  by code_simp

text \<open>
  C4, amended. All entries of a batch are applied in one transaction: after the call the
  table is as before or has all of them applied. A batch that fails leaves the table as it
  was, unless the engine reports the commit as premature (a fault of the script named
  \<^verbatim>\<open>PrematureCommitError\<close>). When the batch has succeeded, and whenever the table has
  changed at all, a key with a remove entry anywhere in the list is absent; any other key
  with set entries that carry a value holds the value of the last of them, stamped with
  the time of the call; every other key is as before.
\<close>

theorem batchUpdate_final_state:
  assumes "batchUpdate ops s = (r, s')"
  shows "(\<forall>e. r = Inl e \<longrightarrow> (\<forall>m. Some (Error ''PrematureCommitError'' m) \<notin> set (faults s)) \<longrightarrow>
            storage s' = storage s)
       \<and> (r = Inr () \<or> storage s' \<noteq> storage s \<longrightarrow>
            (\<forall>k. lookup k (storage s') =
               (let sets = filter (\<lambda>x. op_key x = k \<and> operation x = Op_set \<and> op_value x \<noteq> None) ops in
                if \<exists>x \<in> set ops. op_key x = k \<and> operation x = Op_remove then None
                else if sets = [] then lookup k (storage s)
                else Some \<lparr>key = k, value = the (op_value (last sets)), timestamp = Some (clock s)\<rparr>)))"
proof (intro conjI allI impI)
  fix e assume "r = Inl e"
    and "\<forall>m. Some (Error ''PrematureCommitError'' m) \<notin> set (faults s)"
  with assms batchUpdate_failure [of ops s e s'] show "storage s' = storage s"
    by blast
next
  fix k assume c: "r = Inr () \<or> storage s' \<noteq> storage s"
  have st: "storage s' =
           fold delete_key (snd (batch_loop (clock s) ops [] []))
             (fold put_record (fst (batch_loop (clock s) ops [] [])) (storage s))"
  proof (cases r)
    case (Inr u)
    with assms show ?thesis by (simp add: batchUpdate_success)
  next
    case (Inl e)
    with c have "storage s' \<noteq> storage s" by simp
    with Inl assms batchUpdate_failure [of ops s e s'] show ?thesis by blast
  qed
  let ?mk = "\<lambda>x. \<lparr>key = op_key x, value = the (op_value x), timestamp = Some (clock s)\<rparr>"
  let ?sets = "filter (\<lambda>x. op_key x = k \<and> operation x = Op_set \<and> op_value x \<noteq> None) ops"
  let ?ups = "map ?mk (filter (\<lambda>x. operation x = Op_set \<and> op_value x \<noteq> None) ops)"
  let ?dels = "map op_key (filter (\<lambda>x. operation x = Op_remove) ops)"
  have f: "filter (\<lambda>r. key r = k) ?ups = map ?mk ?sets"
    by (simp add: filter_map o_def conj_commute conj_left_commute)
  have l: "last (map ?mk ?sets) =
             \<lparr>key = k, value = the (op_value (last ?sets)), timestamp = Some (clock s)\<rparr>"
    if ne: "?sets \<noteq> []"
  proof -
    from ne have "last ?sets \<in> set ?sets" by (rule last_in_set)
    then have "op_key (last ?sets) = k" by simp
    with ne show ?thesis by (simp add: last_map)
  qed
  have st': "lookup k (storage s') =
      (if k \<in> set ?dels then None
       else if filter (\<lambda>r. key r = k) ?ups = [] then lookup k (storage s)
       else Some (last (filter (\<lambda>r. key r = k) ?ups)))"
    unfolding st batch_loop_eq
    by (simp only: lookup_bulkDelete lookup_bulkPut fst_conv snd_conv append_Nil)
  have d: "k \<in> set ?dels \<longleftrightarrow> (\<exists>x \<in> set ops. op_key x = k \<and> operation x = Op_remove)"
    by (auto simp: image_iff)
  have e: "filter (\<lambda>r. key r = k) ?ups = [] \<longleftrightarrow> ?sets = []"
    unfolding f by simp
  show "lookup k (storage s') =
               (let sets = ?sets in
                if \<exists>x \<in> set ops. op_key x = k \<and> operation x = Op_remove then None
                else if sets = [] then lookup k (storage s)
                else Some \<lparr>key = k, value = the (op_value (last sets)), timestamp = Some (clock s)\<rparr>)"
    unfolding st' d e Let_def using l f by presburger
qed

theorem batchUpdate_final_state_witness:
  "batchUpdate
     [\<lparr>op_key = ''a'', operation = Op_set, op_value = Some ''1''\<rparr>,
      \<lparr>op_key = ''b'', operation = Op_remove, op_value = None\<rparr>,
      \<lparr>op_key = ''a'', operation = Op_set, op_value = Some ''2''\<rparr>,
      \<lparr>op_key = ''c'', operation = Op_remove, op_value = None\<rparr>,
      \<lparr>op_key = ''c'', operation = Op_set, op_value = Some ''3''\<rparr>]
     (constructor [\<lparr>key = ''b'', value = ''0'', timestamp = Some 1\<rparr>,
                   \<lparr>key = ''d'', value = ''4'', timestamp = Some 2\<rparr>] [] 5) =
   (Inr (),
    \<lparr>dbOpened = None,
     storage = [\<lparr>key = ''d'', value = ''4'', timestamp = Some 2\<rparr>,
                \<lparr>key = ''a'', value = ''2'', timestamp = Some 5\<rparr>],
     faults = [], clock = 5,
     trace = [Open, Transaction, BulkPut [''a'', ''a'', ''c''], BulkDelete [''b'', ''c''], Commit]\<rparr>)
   \<and> lookup ''a'' [\<lparr>key = ''d'', value = ''4'', timestamp = Some 2\<rparr>,
                   \<lparr>key = ''a'', value = ''2'', timestamp = Some 5\<rparr>] =
       Some \<lparr>key = ''a'', value = ''2'', timestamp = Some 5\<rparr>
   \<and> lookup ''c'' [\<lparr>key = ''d'', value = ''4'', timestamp = Some 2\<rparr>,
                   \<lparr>key = ''a'', value = ''2'', timestamp = Some 5\<rparr>] = None
   \<and> batchUpdate
     [\<lparr>op_key = ''a'', operation = Op_set, op_value = Some ''1''\<rparr>,
      \<lparr>op_key = ''b'', operation = Op_remove, op_value = None\<rparr>]
     (constructor [\<lparr>key = ''b'', value = ''0'', timestamp = Some 1\<rparr>]
        [None, None, Some (Error ''AbortError'' ''quota'')] 5) =
   (Inl (Error ''Error'' ''Failed to perform batch update''),
    \<lparr>dbOpened = None,
     storage = [\<lparr>key = ''b'', value = ''0'', timestamp = Some 1\<rparr>],
     faults = [], clock = 5,
     trace = [Open, Transaction, BulkPut [''a''], BulkDelete [''b'']]\<rparr>)
   \<and> storage (constructor [\<lparr>key = ''b'', value = ''0'', timestamp = Some 1\<rparr>]
        [None, None, Some (Error ''AbortError'' ''quota'')] 5) =
       [\<lparr>key = ''b'', value = ''0'', timestamp = Some 1\<rparr>]
   \<and> batchUpdate
     [\<lparr>op_key = ''a'', operation = Op_set, op_value = Some ''1''\<rparr>,
      \<lparr>op_key = ''b'', operation = Op_remove, op_value = None\<rparr>]
     (constructor [\<lparr>key = ''b'', value = ''0'', timestamp = Some 1\<rparr>]
        [None, None, None, Some (Error ''PrematureCommitError'' ''too early'')] 5) =
   (Inl (Error ''Error'' ''Failed to perform batch update''),
    \<lparr>dbOpened = None,
     storage = [\<lparr>key = ''a'', value = ''1'', timestamp = Some 5\<rparr>],
     faults = [], clock = 5,
     trace = [Open, Transaction, BulkPut [''a''], BulkDelete [''b''], Commit]\<rparr>)
   \<and> lookup ''b'' [\<lparr>key = ''a'', value = ''1'', timestamp = Some 5\<rparr>] = None"
proof -
  let ?ops = "[\<lparr>op_key = ''a'', operation = Op_set, op_value = Some ''1''\<rparr>,
      \<lparr>op_key = ''b'', operation = Op_remove, op_value = None\<rparr>,
      \<lparr>op_key = ''a'', operation = Op_set, op_value = Some ''2''\<rparr>,
      \<lparr>op_key = ''c'', operation = Op_remove, op_value = None\<rparr>,
      \<lparr>op_key = ''c'', operation = Op_set, op_value = Some ''3''\<rparr>]"
  let ?s = "constructor [\<lparr>key = ''b'', value = ''0'', timestamp = Some 1\<rparr>,
                   \<lparr>key = ''d'', value = ''4'', timestamp = Some 2\<rparr>] [] 5"
  let ?s' = "\<lparr>dbOpened = None,
     storage = [\<lparr>key = ''d'', value = ''4'', timestamp = Some 2\<rparr>,
                \<lparr>key = ''a'', value = ''2'', timestamp = Some 5\<rparr>],
     faults = [], clock = 5,
     trace = [Open, Transaction, BulkPut [''a'', ''a'', ''c''], BulkDelete [''b'', ''c''], Commit]\<rparr>"
  have run: "batchUpdate ?ops ?s = (Inr (), ?s')"
    by code_simp
  from batchUpdate_final_state [OF run]
  have all: "lookup k (storage ?s') =
      (let sets = filter (\<lambda>x. op_key x = k \<and> operation x = Op_set \<and> op_value x \<noteq> None) ?ops in
       if \<exists>x \<in> set ?ops. op_key x = k \<and> operation x = Op_remove then None
       else if sets = [] then lookup k (storage ?s)
       else Some \<lparr>key = k, value = the (op_value (last sets)), timestamp = Some (clock ?s)\<rparr>)" for k
    by blast
  from all [of "''a''"] have a: "lookup ''a'' (storage ?s') =
      Some \<lparr>key = ''a'', value = ''2'', timestamp = Some 5\<rparr>"
    by (simp add: constructor_def)
  from all [of "''c''"] have c: "lookup ''c'' (storage ?s') = None"
    by simp
  text \<open>A batch whose \<^verbatim>\<open>bulkDelete\<close> fails after its \<^verbatim>\<open>bulkPut\<close> has succeeded.\<close>
  let ?two = "[\<lparr>op_key = ''a'', operation = Op_set, op_value = Some ''1''\<rparr>,
      \<lparr>op_key = ''b'', operation = Op_remove, op_value = None\<rparr>]"
  let ?q = "constructor [\<lparr>key = ''b'', value = ''0'', timestamp = Some 1\<rparr>]
        [None, None, Some (Error ''AbortError'' ''quota'')] 5"
  let ?q' = "\<lparr>dbOpened = None,
     storage = [\<lparr>key = ''b'', value = ''0'', timestamp = Some 1\<rparr>],
     faults = [], clock = 5,
     trace = [Open, Transaction, BulkPut [''a''], BulkDelete [''b'']]\<rparr>"
  have aborted: "batchUpdate ?two ?q =
     (Inl (Error ''Error'' ''Failed to perform batch update''), ?q')"
    by code_simp
  have quiet: "\<forall>m. Some (Error ''PrematureCommitError'' m) \<notin> set (faults ?q)"
    by (simp add: constructor_def)
  from batchUpdate_final_state [OF aborted] quiet have "storage ?q' = storage ?q"
    by blast
  then have kept: "storage ?q = [\<lparr>key = ''b'', value = ''0'', timestamp = Some 1\<rparr>]"
    by simp
  text \<open>A batch whose commit is reported as premature.\<close>
  let ?p = "constructor [\<lparr>key = ''b'', value = ''0'', timestamp = Some 1\<rparr>]
        [None, None, None, Some (Error ''PrematureCommitError'' ''too early'')] 5"
  let ?p' = "\<lparr>dbOpened = None,
     storage = [\<lparr>key = ''a'', value = ''1'', timestamp = Some 5\<rparr>],
     faults = [], clock = 5,
     trace = [Open, Transaction, BulkPut [''a''], BulkDelete [''b''], Commit]\<rparr>"
  have early: "batchUpdate ?two ?p =
     (Inl (Error ''Error'' ''Failed to perform batch update''), ?p')"
    by code_simp
  have changed: "storage ?p' \<noteq> storage ?p"
    by (simp add: constructor_def)
  from batchUpdate_final_state [OF early] changed
  have "lookup ''b'' (storage ?p') =
      (let sets = filter (\<lambda>x. op_key x = ''b'' \<and> operation x = Op_set \<and> op_value x \<noteq> None) ?two in
       if \<exists>x \<in> set ?two. op_key x = ''b'' \<and> operation x = Op_remove then None
       else if sets = [] then lookup ''b'' (storage ?p)
       else Some \<lparr>key = ''b'', value = the (op_value (last sets)), timestamp = Some (clock ?p)\<rparr>)"
    by blast
  then have gone: "lookup ''b'' (storage ?p') = None"
    by simp
  from run a c aborted kept early gone show ?thesis by simp
qed

section \<open>getStorageInfo: when it raises and when it does not\<close>

text \<open>
  C5, as the specification states it: \<open>getStorageInfo\<close> returns the zero-valued result also
  when the store could not be opened. In the code the \<^verbatim>\<open>await this.initialize()\<close> of line 342 stands before the
  \<^verbatim>\<open>try\<close>: the error of the failed open is raised.
\<close>

theorem getStorageInfo_raises_counterexample:
  "fst (getStorageInfo (constructor [] [Some (Error ''OpenFailedError'' ''unreachable'')] 0)) =
     Inl (Error ''OpenFailedError'' ''unreachable'')"
  by code_simp

text \<open>
  C5, amended. Once the store has been opened, \<open>getStorageInfo\<close> never raises: it returns a
  result, and when one of its three requests to the engine fails, the zero-valued result.
  When the store could not be opened it raises the error of the open, as every other
  operation does, and issues no request.
\<close>

theorem getStorageInfo_after_open:
  "(dbOpened s = None \<longrightarrow> (\<exists>info. fst (getStorageInfo s) = Inr info))
   \<and> (dbOpened s = None \<and> (\<exists>e. Some e \<in> set (take 3 (faults s))) \<longrightarrow>
        fst (getStorageInfo s) = Inr \<lparr>itemCount = 0, estimatedSize = 0, lastUpdated = None\<rparr>)
   \<and> (\<forall>e. dbOpened s = Some e \<longrightarrow> getStorageInfo s = (Inl e, s))"
proof (intro conjI impI allI)
  assume "dbOpened s = None"
  then show "\<exists>info. fst (getStorageInfo s) = Inr info"
    by (simp only: getStorageInfo_opened io_catch_return_Inr)
next
  assume a: "dbOpened s = None \<and> (\<exists>e. Some e \<in> set (take 3 (faults s)))"
  then obtain e where "Some e \<in> set (take 3 (faults s))" by blast
  from first_fault_of_three [OF this] consider e' r where "faults s = Some e' # r"
    | e' r where "faults s = None # Some e' # r"
    | e' r where "faults s = None # None # Some e' # r"
    by blast
  then show "fst (getStorageInfo s) = Inr \<lparr>itemCount = 0, estimatedSize = 0, lastUpdated = None\<rparr>"
  proof cases
    case 1
    with a show ?thesis
      by (simp add: getStorageInfo_opened io_catch_def io_bind_def io_return_def storage_count_def
          request_def)
  next
    case 2
    with a show ?thesis
      by (simp add: getStorageInfo_opened io_catch_def io_bind_def io_return_def storage_count_def
          storage_orderBy_timestamp_last_def request_def)
  next
    case 3
    with a show ?thesis
      by (simp add: getStorageInfo_opened io_catch_def io_bind_def io_return_def storage_count_def
          storage_orderBy_timestamp_last_def storage_toArray_def request_def)
  qed
next
  fix e assume "dbOpened s = Some e"
  then show "getStorageInfo s = (Inl e, s)"
    by (simp add: getStorageInfo_def io_bind_def initialize_def)
qed

theorem getStorageInfo_after_open_witness:
  "dbOpened (constructor [\<lparr>key = ''counter'', value = ''41'', timestamp = Some 3\<rparr>]
              [None, None, Some (Error ''AbortError'' ''engine gone'')] 5) = None
   \<and> Some (Error ''AbortError'' ''engine gone'') \<in> set (take 3 (faults
        (constructor [\<lparr>key = ''counter'', value = ''41'', timestamp = Some 3\<rparr>]
              [None, None, Some (Error ''AbortError'' ''engine gone'')] 5)))
   \<and> fst (getStorageInfo (constructor [\<lparr>key = ''counter'', value = ''41'', timestamp = Some 3\<rparr>]
              [None, None, Some (Error ''AbortError'' ''engine gone'')] 5)) =
       Inr \<lparr>itemCount = 0, estimatedSize = 0, lastUpdated = None\<rparr>
   \<and> fst (getStorageInfo (constructor [\<lparr>key = ''counter'', value = ''41'', timestamp = Some 3\<rparr>]
              [None] 5)) =
       Inr \<lparr>itemCount = 1, estimatedSize = 2, lastUpdated = Some 3\<rparr>
   \<and> dbOpened (constructor [] [Some (Error ''OpenFailedError'' ''no engine'')] 5) =
       Some (Error ''OpenFailedError'' ''no engine'')
   \<and> getStorageInfo (constructor [] [Some (Error ''OpenFailedError'' ''no engine'')] 5) =
       (Inl (Error ''OpenFailedError'' ''no engine''),
        constructor [] [Some (Error ''OpenFailedError'' ''no engine'')] 5)"
proof -
  let ?s = "constructor [\<lparr>key = ''counter'', value = ''41'', timestamp = Some 3\<rparr>]
              [None, None, Some (Error ''AbortError'' ''engine gone'')] 5"
  have o: "dbOpened ?s = None"
    by (simp add: constructor_def)
  have f: "Some (Error ''AbortError'' ''engine gone'') \<in> set (take 3 (faults ?s))"
    by (simp add: constructor_def)
  from o f have "dbOpened ?s = None \<and> (\<exists>e. Some e \<in> set (take 3 (faults ?s)))"
    by blast
  with getStorageInfo_after_open [of ?s]
  have z: "fst (getStorageInfo ?s) = Inr \<lparr>itemCount = 0, estimatedSize = 0, lastUpdated = None\<rparr>"
    by blast
  have g: "fst (getStorageInfo (constructor [\<lparr>key = ''counter'', value = ''41'', timestamp = Some 3\<rparr>]
              [None] 5)) =
       Inr \<lparr>itemCount = 1, estimatedSize = 2, lastUpdated = Some 3\<rparr>"
    by code_simp
  let ?u = "constructor [] [Some (Error ''OpenFailedError'' ''no engine'')] 5"
  have c: "dbOpened ?u = Some (Error ''OpenFailedError'' ''no engine'')"
    by (simp add: constructor_def)
  with getStorageInfo_after_open [of ?u]
  have r: "getStorageInfo ?u = (Inl (Error ''OpenFailedError'' ''no engine''), ?u)"
    by blast
  from o f z g c r show ?thesis by simp
qed

section \<open>The retry loop: all attempts exhausted\<close>

text \<open>
  C6. When the three transactional attempts of an \<open>atomicUpdate\<close> have failed one after the
  other, the simple update decides: if it succeeds the call succeeds; if it fails as well,
  the call raises the error of the third (the last) transactional attempt, and the error of
  the simple update is dropped.
\<close>

theorem atomicUpdate_exhausted:
  assumes "dbOpened s = None"
    and "performAtomicUpdate c k updateFn s = (Inl e1, s1)"
    and "performAtomicUpdate c k updateFn s1 = (Inl e2, s2)"
    and "performAtomicUpdate c k updateFn s2 = (Inl e3, s3)"
  shows "atomicUpdate c k updateFn s =
           (case performSimpleUpdate c k updateFn s3 of
              (Inr u, s4) \<Rightarrow> (Inr (), s4)
            | (Inl fallbackError, s4) \<Rightarrow> (Inl e3, s4))"
proof -
  have "performAtomicUpdateWithRetry_loop c k updateFn 3 1 None s =
        performAtomicUpdateWithRetry_loop c k updateFn 3 2 (Some e1) s1"
    by (rule loop_next_attempt [OF _ _ assms(2)]) simp_all
  also have "\<dots> = performAtomicUpdateWithRetry_loop c k updateFn 3 3 (Some e2) s2"
    by (rule loop_next_attempt [OF _ _ assms(3)]) simp_all
  also have "\<dots> = (case performSimpleUpdate c k updateFn s3 of
              (Inr u, s4) \<Rightarrow> (Inr (), s4)
            | (Inl fallbackError, s4) \<Rightarrow> (Inl e3, s4))"
    by (rule loop_last_attempt [OF assms(4)])
  finally show ?thesis
    using assms(1)
    by (simp add: atomicUpdate_def performAtomicUpdateWithRetry_def io_bind_def initialize_def)
qed

theorem atomicUpdate_exhausted_witness:
  "atomicUpdate number_codec ''counter'' increment
     (constructor [\<lparr>key = ''counter'', value = ''41'', timestamp = Some 3\<rparr>]
        [None, Some (Error ''DataError'' ''first''),
         None, None, Some (Error ''PrematureCommitError'' ''second''),
         None, None, Some (Error ''PrematureCommitError'' ''third''),
         Some (Error ''DataError'' ''fallback'')] 9) =
   (Inl (Error ''Error'' ''Database transaction error for key counter: third. Please try again.''),
    \<lparr>dbOpened = None,
     storage = [\<lparr>key = ''counter'', value = ''43'', timestamp = Some 9\<rparr>],
     faults = [], clock = 9,
     trace = [Open, Transaction, Get ''counter'',
              Transaction, Get ''counter'', Put ''counter'', Commit,
              Transaction, Get ''counter'', Put ''counter'', Commit,
              Get ''counter'']\<rparr>)
   \<and> atomicUpdate number_codec ''counter'' increment
     (constructor [\<lparr>key = ''counter'', value = ''41'', timestamp = Some 3\<rparr>]
        [None, Some (Error ''DataError'' ''first''),
         None, None, Some (Error ''PrematureCommitError'' ''second''),
         None, None, Some (Error ''PrematureCommitError'' ''third'')] 9) =
   (Inr (),
    \<lparr>dbOpened = None,
     storage = [\<lparr>key = ''counter'', value = ''44'', timestamp = Some 9\<rparr>],
     faults = [], clock = 9,
     trace = [Open, Transaction, Get ''counter'',
              Transaction, Get ''counter'', Put ''counter'', Commit,
              Transaction, Get ''counter'', Put ''counter'', Commit,
              Get ''counter'', Put ''counter'']\<rparr>)"
proof -
  let ?disk = "[\<lparr>key = ''counter'', value = ''41'', timestamp = Some 3\<rparr>]"
  let ?disk2 = "[\<lparr>key = ''counter'', value = ''42'', timestamp = Some 9\<rparr>]"
  let ?disk3 = "[\<lparr>key = ''counter'', value = ''43'', timestamp = Some 9\<rparr>]"
  let ?t1 = "[Open, Transaction, Get ''counter'']"
  let ?t2 = "[Open, Transaction, Get ''counter'',
              Transaction, Get ''counter'', Put ''counter'', Commit]"
  let ?t3 = "[Open, Transaction, Get ''counter'',
              Transaction, Get ''counter'', Put ''counter'', Commit,
              Transaction, Get ''counter'', Put ''counter'', Commit]"
  let ?e1 = "Error ''Error'' ''Failed to perform atomic update: counter''"
  let ?e2 = "Error ''Error'' ''Database transaction error for key counter: second. Please try again.''"
  let ?e3 = "Error ''Error'' ''Database transaction error for key counter: third. Please try again.''"
  text \<open>The simple update fails as well.\<close>
  let ?s = "constructor ?disk
        [None, Some (Error ''DataError'' ''first''),
         None, None, Some (Error ''PrematureCommitError'' ''second''),
         None, None, Some (Error ''PrematureCommitError'' ''third''),
         Some (Error ''DataError'' ''fallback'')] 9"
  let ?s1 = "\<lparr>dbOpened = None, storage = ?disk,
     faults = [None, None, Some (Error ''PrematureCommitError'' ''second''),
               None, None, Some (Error ''PrematureCommitError'' ''third''),
               Some (Error ''DataError'' ''fallback'')],
     clock = 9, trace = ?t1\<rparr>"
  let ?s2 = "\<lparr>dbOpened = None, storage = ?disk2,
     faults = [None, None, Some (Error ''PrematureCommitError'' ''third''),
               Some (Error ''DataError'' ''fallback'')],
     clock = 9, trace = ?t2\<rparr>"
  let ?s3 = "\<lparr>dbOpened = None, storage = ?disk3,
     faults = [Some (Error ''DataError'' ''fallback'')], clock = 9, trace = ?t3\<rparr>"
  let ?s4 = "\<lparr>dbOpened = None, storage = ?disk3,
     faults = [], clock = 9, trace = ?t3 @ [Get ''counter'']\<rparr>"
  have o: "dbOpened ?s = None"
    by (simp add: constructor_def)
  have a1: "performAtomicUpdate number_codec ''counter'' increment ?s = (Inl ?e1, ?s1)"
    by code_simp
  have a2: "performAtomicUpdate number_codec ''counter'' increment ?s1 = (Inl ?e2, ?s2)"
    by code_simp
  have a3: "performAtomicUpdate number_codec ''counter'' increment ?s2 = (Inl ?e3, ?s3)"
    by code_simp
  have f: "performSimpleUpdate number_codec ''counter'' increment ?s3 =
      (Inl (Error ''Error'' ''Failed to perform simple update: counter''), ?s4)"
    by code_simp
  from atomicUpdate_exhausted [OF o a1 a2 a3] f
  have failed: "atomicUpdate number_codec ''counter'' increment ?s = (Inl ?e3, ?s4)"
    by simp
  text \<open>The simple update succeeds.\<close>
  let ?r = "constructor ?disk
        [None, Some (Error ''DataError'' ''first''),
         None, None, Some (Error ''PrematureCommitError'' ''second''),
         None, None, Some (Error ''PrematureCommitError'' ''third'')] 9"
  let ?r1 = "\<lparr>dbOpened = None, storage = ?disk,
     faults = [None, None, Some (Error ''PrematureCommitError'' ''second''),
               None, None, Some (Error ''PrematureCommitError'' ''third'')],
     clock = 9, trace = ?t1\<rparr>"
  let ?r2 = "\<lparr>dbOpened = None, storage = ?disk2,
     faults = [None, None, Some (Error ''PrematureCommitError'' ''third'')],
     clock = 9, trace = ?t2\<rparr>"
  let ?r3 = "\<lparr>dbOpened = None, storage = ?disk3, faults = [], clock = 9, trace = ?t3\<rparr>"
  let ?r4 = "\<lparr>dbOpened = None,
     storage = [\<lparr>key = ''counter'', value = ''44'', timestamp = Some 9\<rparr>],
     faults = [], clock = 9, trace = ?t3 @ [Get ''counter'', Put ''counter'']\<rparr>"
  have o': "dbOpened ?r = None"
    by (simp add: constructor_def)
  have b1: "performAtomicUpdate number_codec ''counter'' increment ?r = (Inl ?e1, ?r1)"
    by code_simp
  have b2: "performAtomicUpdate number_codec ''counter'' increment ?r1 = (Inl ?e2, ?r2)"
    by code_simp
  have b3: "performAtomicUpdate number_codec ''counter'' increment ?r2 = (Inl ?e3, ?r3)"
    by code_simp
  have g: "performSimpleUpdate number_codec ''counter'' increment ?r3 = (Inr (), ?r4)"
    by code_simp
  from atomicUpdate_exhausted [OF o' b1 b2 b3] g
  have succeeded: "atomicUpdate number_codec ''counter'' increment ?r = (Inr (), ?r4)"
    by simp
  from failed succeeded show ?thesis by simp
qed

section \<open>A store that could not be opened\<close>

text \<open>
  C7. When the one open of the store in the constructor has failed with error \<open>e\<close>, every
  operation that awaits the initialization fails with this same \<open>e\<close>, and leaves everything
  as it was: no request is sent to the engine, and the open is not tried again.
\<close>

theorem initialization_error:
  assumes "dbOpened s = Some e"
  shows "getItem k s = (Inl e, s) \<and> setItem k v s = (Inl e, s) \<and> removeItem k s = (Inl e, s)
       \<and> clearAll s = (Inl e, s) \<and> atomicUpdate c k updateFn s = (Inl e, s)
       \<and> updateData c k updateFn s = (Inl e, s) \<and> batchUpdate operations s = (Inl e, s)
       \<and> getStorageInfo s = (Inl e, s) \<and> exportAll s = (Inl e, s) \<and> importAll data s = (Inl e, s)"
  using assms
  by (simp add: getItem_def setItem_def removeItem_def clearAll_def atomicUpdate_def updateData_def
      batchUpdate_def getStorageInfo_def exportAll_def importAll_def io_bind_def initialize_def)

theorem initialization_error_witness:
  "dbOpened (constructor [] [Some (Error ''OpenFailedError'' ''unreachable'')] 0) =
     Some (Error ''OpenFailedError'' ''unreachable'')
   \<and> trace (constructor [] [Some (Error ''OpenFailedError'' ''unreachable'')] 0) = [Open]
   \<and> getItem ''a'' (constructor [] [Some (Error ''OpenFailedError'' ''unreachable'')] 0) =
       (Inl (Error ''OpenFailedError'' ''unreachable''),
        constructor [] [Some (Error ''OpenFailedError'' ''unreachable'')] 0)
   \<and> setItem ''a'' ''1'' (constructor [] [Some (Error ''OpenFailedError'' ''unreachable'')] 0) =
       (Inl (Error ''OpenFailedError'' ''unreachable''),
        constructor [] [Some (Error ''OpenFailedError'' ''unreachable'')] 0)
   \<and> removeItem ''a'' (constructor [] [Some (Error ''OpenFailedError'' ''unreachable'')] 0) =
       (Inl (Error ''OpenFailedError'' ''unreachable''),
        constructor [] [Some (Error ''OpenFailedError'' ''unreachable'')] 0)
   \<and> clearAll (constructor [] [Some (Error ''OpenFailedError'' ''unreachable'')] 0) =
       (Inl (Error ''OpenFailedError'' ''unreachable''),
        constructor [] [Some (Error ''OpenFailedError'' ''unreachable'')] 0)
   \<and> atomicUpdate number_codec ''a'' increment (constructor [] [Some (Error ''OpenFailedError'' ''unreachable'')] 0) =
       (Inl (Error ''OpenFailedError'' ''unreachable''),
        constructor [] [Some (Error ''OpenFailedError'' ''unreachable'')] 0)
   \<and> updateData number_codec ''a'' increment (constructor [] [Some (Error ''OpenFailedError'' ''unreachable'')] 0) =
       (Inl (Error ''OpenFailedError'' ''unreachable''),
        constructor [] [Some (Error ''OpenFailedError'' ''unreachable'')] 0)
   \<and> batchUpdate [\<lparr>op_key = ''a'', operation = Op_remove, op_value = None\<rparr>] (constructor [] [Some (Error ''OpenFailedError'' ''unreachable'')] 0) =
       (Inl (Error ''OpenFailedError'' ''unreachable''),
        constructor [] [Some (Error ''OpenFailedError'' ''unreachable'')] 0)
   \<and> getStorageInfo (constructor [] [Some (Error ''OpenFailedError'' ''unreachable'')] 0) =
       (Inl (Error ''OpenFailedError'' ''unreachable''),
        constructor [] [Some (Error ''OpenFailedError'' ''unreachable'')] 0)
   \<and> exportAll (constructor [] [Some (Error ''OpenFailedError'' ''unreachable'')] 0) =
       (Inl (Error ''OpenFailedError'' ''unreachable''),
        constructor [] [Some (Error ''OpenFailedError'' ''unreachable'')] 0)
   \<and> importAll [(''a'', ''1'')] (constructor [] [Some (Error ''OpenFailedError'' ''unreachable'')] 0) =
       (Inl (Error ''OpenFailedError'' ''unreachable''),
        constructor [] [Some (Error ''OpenFailedError'' ''unreachable'')] 0)"
proof -
  let ?s = "constructor [] [Some (Error ''OpenFailedError'' ''unreachable'')] 0"
  have o: "dbOpened ?s = Some (Error ''OpenFailedError'' ''unreachable'')"
    by (simp add: constructor_def)
  have t: "trace ?s = [Open]"
    by (simp add: constructor_def)
  from initialization_error [OF o, of "''a''" "''1''" number_codec increment
      "[\<lparr>op_key = ''a'', operation = Op_remove, op_value = None\<rparr>]" "[(''a'', ''1'')]"] o t
  show ?thesis by simp
qed

section \<open>Round trip of setItem and getItem\<close>

text \<open>
  C8. For every key \<open>k\<close>, every string \<open>v\<close> and every table: with the store open and no
  fault of the engine at the next two requests, \<open>setItem k v\<close> succeeds, and the
  \<open>getItem k\<close> that follows it succeeds and returns exactly \<open>v\<close>.
\<close>

theorem setItem_getItem_roundtrip:
  assumes "dbOpened s = None" and "\<forall>f \<in> set (take 2 (faults s)). f = None"
  shows "fst (setItem k v s) = Inr ()
       \<and> fst (getItem k (snd (setItem k v s))) = Inr (Some v)"
proof -
  let ?s1 = "s\<lparr>faults := tl (faults s), trace := trace s @ [Put k],
               storage := put_record \<lparr>key = k, value = v, timestamp = Some (clock s)\<rparr> (storage s)\<rparr>"
  from no_fault_in_two [OF assms(2)]
  have f1: "faults s = [] \<or> hd (faults s) = None"
    and f2: "tl (faults s) = [] \<or> hd (tl (faults s)) = None"
    by simp_all
  from assms(1) f1 have set: "setItem k v s = (Inr (), ?s1)"
    by (rule setItem_succeeds)
  from assms(1) f2 have "getItem k ?s1 =
      (Inr (map_option value (lookup k (storage ?s1))),
       ?s1\<lparr>faults := tl (faults ?s1), trace := trace ?s1 @ [Get k]\<rparr>)"
    by (intro getItem_succeeds) simp_all
  then have "fst (getItem k ?s1) = Inr (Some v)"
    by (simp add: lookup_put_record)
  with set show ?thesis by simp
qed

theorem setItem_getItem_roundtrip_witness:
  "dbOpened (constructor [\<lparr>key = ''k'', value = ''old'', timestamp = Some 1\<rparr>,
                          \<lparr>key = ''j'', value = ''x'', timestamp = Some 2\<rparr>]
               [None, None, None, Some (Error ''AbortError'' ''later'')] 7) = None
   \<and> take 2 (faults (constructor [\<lparr>key = ''k'', value = ''old'', timestamp = Some 1\<rparr>,
                                  \<lparr>key = ''j'', value = ''x'', timestamp = Some 2\<rparr>]
               [None, None, None, Some (Error ''AbortError'' ''later'')] 7)) = [None, None]
   \<and> setItem ''k'' ''new''
        (constructor [\<lparr>key = ''k'', value = ''old'', timestamp = Some 1\<rparr>,
                      \<lparr>key = ''j'', value = ''x'', timestamp = Some 2\<rparr>]
               [None, None, None, Some (Error ''AbortError'' ''later'')] 7) =
      (Inr (),
       \<lparr>dbOpened = None,
        storage = [\<lparr>key = ''k'', value = ''new'', timestamp = Some 7\<rparr>,
                   \<lparr>key = ''j'', value = ''x'', timestamp = Some 2\<rparr>],
        faults = [None, Some (Error ''AbortError'' ''later'')], clock = 7,
        trace = [Open, Put ''k'']\<rparr>)
   \<and> fst (getItem ''k''
        \<lparr>dbOpened = None,
         storage = [\<lparr>key = ''k'', value = ''new'', timestamp = Some 7\<rparr>,
                    \<lparr>key = ''j'', value = ''x'', timestamp = Some 2\<rparr>],
         faults = [None, Some (Error ''AbortError'' ''later'')], clock = 7,
         trace = [Open, Put ''k'']\<rparr>) = Inr (Some ''new'')"
proof -
  let ?s = "constructor [\<lparr>key = ''k'', value = ''old'', timestamp = Some 1\<rparr>,
                      \<lparr>key = ''j'', value = ''x'', timestamp = Some 2\<rparr>]
               [None, None, None, Some (Error ''AbortError'' ''later'')] 7"
  let ?s1 = "\<lparr>dbOpened = None,
        storage = [\<lparr>key = ''k'', value = ''new'', timestamp = Some 7\<rparr>,
                   \<lparr>key = ''j'', value = ''x'', timestamp = Some 2\<rparr>],
        faults = [None, Some (Error ''AbortError'' ''later'')], clock = 7,
        trace = [Open, Put ''k'']\<rparr>"
  have o: "dbOpened ?s = None"
    by (simp add: constructor_def)
  have t: "take 2 (faults ?s) = [None, None]"
    by (simp add: constructor_def numeral_2_eq_2)
  then have q: "\<forall>f \<in> set (take 2 (faults ?s)). f = None"
    by simp
  have a: "setItem ''k'' ''new'' ?s = (Inr (), ?s1)"
    by code_simp
  from setItem_getItem_roundtrip [OF o q, of "''k''" "''new''"] a
  have b: "fst (getItem ''k'' ?s1) = Inr (Some ''new'')"
    by simp
  from o t a b show ?thesis by simp
qed

section \<open>batchUpdate: a set entry without a value\<close>

text \<open>
  C9. A batch entry with operation \<^verbatim>\<open>set\<close> whose value is \<^verbatim>\<open>undefined\<close> is skipped: the
  batch behaves in every respect (result, table, requests sent) as the batch without this
  entry, so the entry writes nothing, removes nothing and raises nothing, and the entries
  before and after it are applied as they are without it.
\<close>

theorem batchUpdate_skips_set_without_value:
  "batchUpdate (xs @ \<lparr>op_key = k, operation = Op_set, op_value = None\<rparr> # ys) s =
   batchUpdate (xs @ ys) s"
  by (simp add: batchUpdate_def batch_loop_skip)

theorem batchUpdate_skips_set_without_value_witness:
  "batchUpdate [\<lparr>op_key = ''a'', operation = Op_set, op_value = Some ''1''\<rparr>,
                \<lparr>op_key = ''b'', operation = Op_set, op_value = None\<rparr>,
                \<lparr>op_key = ''c'', operation = Op_remove, op_value = None\<rparr>]
     (constructor [\<lparr>key = ''b'', value = ''0'', timestamp = Some 1\<rparr>,
                   \<lparr>key = ''c'', value = ''4'', timestamp = Some 2\<rparr>] [] 5) =
   (Inr (),
    \<lparr>dbOpened = None,
     storage = [\<lparr>key = ''b'', value = ''0'', timestamp = Some 1\<rparr>,
                \<lparr>key = ''a'', value = ''1'', timestamp = Some 5\<rparr>],
     faults = [], clock = 5,
     trace = [Open, Transaction, BulkPut [''a''], BulkDelete [''c''], Commit]\<rparr>)"
proof -
  have "batchUpdate ([\<lparr>op_key = ''a'', operation = Op_set, op_value = Some ''1''\<rparr>] @
                [\<lparr>op_key = ''c'', operation = Op_remove, op_value = None\<rparr>])
     (constructor [\<lparr>key = ''b'', value = ''0'', timestamp = Some 1\<rparr>,
                   \<lparr>key = ''c'', value = ''4'', timestamp = Some 2\<rparr>] [] 5) =
   (Inr (),
    \<lparr>dbOpened = None,
     storage = [\<lparr>key = ''b'', value = ''0'', timestamp = Some 1\<rparr>,
                \<lparr>key = ''a'', value = ''1'', timestamp = Some 5\<rparr>],
     faults = [], clock = 5,
     trace = [Open, Transaction, BulkPut [''a''], BulkDelete [''c''], Commit]\<rparr>)"
    by code_simp
  with batchUpdate_skips_set_without_value
    [of "[\<lparr>op_key = ''a'', operation = Op_set, op_value = Some ''1''\<rparr>]" "''b''"
        "[\<lparr>op_key = ''c'', operation = Op_remove, op_value = None\<rparr>]"
        "constructor [\<lparr>key = ''b'', value = ''0'', timestamp = Some 1\<rparr>,
                   \<lparr>key = ''c'', value = ''4'', timestamp = Some 2\<rparr>] [] 5"]
  show ?thesis by simp
qed

section \<open>importAll: the keys it leaves alone\<close>

text \<open>
  C10. \<open>importAll data\<close> writes only the keys of \<open>data\<close>: a key that does not occur in
  \<open>data\<close> has after the call the record it had before (the same value and timestamp), or
  is absent as before.
\<close>

theorem importAll_keeps_other_keys:
  assumes "k \<notin> fst ` set data"
  shows "lookup k (storage (snd (importAll data s))) = lookup k (storage s)"
proof -
  from assms
  have "k \<notin> key ` set (map (\<lambda>(k, v). \<lparr>key = k, value = v, timestamp = Some (clock s)\<rparr>) data)"
    by (auto simp: image_iff split: prod.splits)
  then show ?thesis
    by (auto simp: importAll_def io_bind_def io_catch_def io_throw_def initialize_def
        Date_now_def storage_bulkPut_def request_def Let_def lookup_bulkPut_other
        split: option.splits list.splits prod.splits sum.splits)
qed

theorem importAll_keeps_other_keys_witness:
  "''d'' \<notin> fst ` set [(''a'', ''1''), (''b'', ''2'')]
   \<and> importAll [(''a'', ''1''), (''b'', ''2'')]
        (constructor [\<lparr>key = ''b'', value = ''0'', timestamp = Some 1\<rparr>,
                      \<lparr>key = ''d'', value = ''4'', timestamp = Some 2\<rparr>] [] 5) =
      (Inr (),
       \<lparr>dbOpened = None,
        storage = [\<lparr>key = ''b'', value = ''2'', timestamp = Some 5\<rparr>,
                   \<lparr>key = ''d'', value = ''4'', timestamp = Some 2\<rparr>,
                   \<lparr>key = ''a'', value = ''1'', timestamp = Some 5\<rparr>],
        faults = [], clock = 5, trace = [Open, BulkPut [''a'', ''b'']]\<rparr>)
   \<and> lookup ''d'' (storage (snd (importAll [(''a'', ''1''), (''b'', ''2'')]
        (constructor [\<lparr>key = ''b'', value = ''0'', timestamp = Some 1\<rparr>,
                      \<lparr>key = ''d'', value = ''4'', timestamp = Some 2\<rparr>] [] 5)))) =
      Some \<lparr>key = ''d'', value = ''4'', timestamp = Some 2\<rparr>"
proof -
  let ?s = "constructor [\<lparr>key = ''b'', value = ''0'', timestamp = Some 1\<rparr>,
                      \<lparr>key = ''d'', value = ''4'', timestamp = Some 2\<rparr>] [] 5"
  have n: "''d'' \<notin> fst ` set [(''a'', ''1''), (''b'', ''2'')]"
    by simp
  have r: "importAll [(''a'', ''1''), (''b'', ''2'')] ?s =
      (Inr (),
       \<lparr>dbOpened = None,
        storage = [\<lparr>key = ''b'', value = ''2'', timestamp = Some 5\<rparr>,
                   \<lparr>key = ''d'', value = ''4'', timestamp = Some 2\<rparr>,
                   \<lparr>key = ''a'', value = ''1'', timestamp = Some 5\<rparr>],
        faults = [], clock = 5, trace = [Open, BulkPut [''a'', ''b'']]\<rparr>)"
    by code_simp
  have "lookup ''d'' (storage ?s) = Some \<lparr>key = ''d'', value = ''4'', timestamp = Some 2\<rparr>"
    by (simp add: constructor_def lookup_def)
  with importAll_keeps_other_keys [OF n, of ?s] n r show ?thesis
    by simp
qed

end
